theory Spec2Isabelle
  imports Complex_Main
begin

section \<open>The JavaScript runtime, as far as \<open>odata-builder.ts\<close> uses it\<close>

text \<open>
  Strings are modelled as \<^typ>\<open>string\<close>: one \<^typ>\<open>char\<close> per UTF-16 code unit, for the
  code units below 256. Numbers are the values of binary64: a finite number is the rational
  it stands for, and whatever computes a number rounds the exact result to the nearest
  value, ties to even, and overflows to \<open>Infinity\<close>. The sign of zero is left out.
\<close>

subsection \<open>Characters and strings\<close>

definition isLineTerminator :: "char \<Rightarrow> bool" where
  \<comment> \<open>what \<open>.\<close> of a regular expression refuses: LF and CR (U+2028 and U+2029 lie outside the model)\<close>
  "isLineTerminator c = (of_char c = (10::nat) \<or> of_char c = (13::nat))"

definition isWhiteSpace :: "char \<Rightarrow> bool" where
  \<comment> \<open>what \<open>trim\<close> strips and \<open>Number\<close> skips: TAB, LF, VT, FF, CR, SP and NBSP\<close>
  "isWhiteSpace c = (of_char c \<in> {9, 10, 11, 12, 13, 32, 160 :: nat})"

definition trimStart :: "string \<Rightarrow> string" where
  "trimStart s = dropWhile isWhiteSpace s"

definition trim :: "string \<Rightarrow> string" where
  "trim s = rev (dropWhile isWhiteSpace (rev (dropWhile isWhiteSpace s)))"

definition startsWith :: "string \<Rightarrow> string \<Rightarrow> bool" where
  "startsWith s p = (take (length p) s = p)"

definition endsWith :: "string \<Rightarrow> string \<Rightarrow> bool" where
  "endsWith s p = (length p \<le> length s \<and> drop (length s - length p) s = p)"

definition str_includes :: "string \<Rightarrow> string \<Rightarrow> bool" where
  \<comment> \<open>\<open>s.includes(p)\<close>: \<open>p\<close> starts at some index of \<open>s\<close>\<close>
  "str_includes s p = (\<exists>i \<in> set [0 ..< Suc (length s)]. startsWith (drop i s) p)"

definition slice_1_m1 :: "string \<Rightarrow> string" where
  \<comment> \<open>\<open>s.slice(1, -1)\<close>: from index 1 up to the last character, empty when \<open>s\<close> has fewer than 3\<close>
  "slice_1_m1 s = butlast (tl s)"

definition upperChar :: "char \<Rightarrow> char" where
  "upperChar c = (if (97::nat) \<le> of_char c \<and> of_char c \<le> (122::nat)
                  then char_of (of_char c - (32::nat)) else c)"

definition toUpperCase :: "string \<Rightarrow> string" where
  \<comment> \<open>exact on ASCII; the case mapping of the other code units is left out\<close>
  "toUpperCase s = map upperChar s"

function split_from :: "string \<Rightarrow> string \<Rightarrow> string \<Rightarrow> string list" where
  "split_from sep acc s =
     (if s = [] then [acc]
      else if sep \<noteq> [] \<and> startsWith s sep then acc # split_from sep [] (drop (length sep) s)
      else split_from sep (acc @ [hd s]) (tl s))"
  by pat_completeness auto
termination
  by (relation "measure (\<lambda>(sep, acc, s). length s)") auto

declare split_from.simps [simp del]

definition split :: "string \<Rightarrow> string \<Rightarrow> string list" where
  \<comment> \<open>\<open>s.split(sep)\<close> for a string separator: cut at each occurrence, left to right\<close>
  "split s sep = (if sep = [] then map (\<lambda>c. [c]) s else split_from sep [] s)"

subsection \<open>Digits and numbers\<close>

datatype jsnumber = NaN | Finite rat | PosInfinity | NegInfinity

definition js_negate :: "jsnumber \<Rightarrow> jsnumber" where
  "js_negate x = (case x of NaN \<Rightarrow> NaN | Finite q \<Rightarrow> Finite (- q)
                  | PosInfinity \<Rightarrow> NegInfinity | NegInfinity \<Rightarrow> PosInfinity)"

definition pow2 :: "int \<Rightarrow> rat" where
  "pow2 e = (if 0 \<le> e then 2 ^ nat e else 1 / 2 ^ nat (- e))"

function bitLength :: "int \<Rightarrow> nat" where
  \<comment> \<open>the number of binary digits of a positive integer\<close>
  "bitLength n = (if n \<le> 0 then 0 else Suc (bitLength (n div 2)))"
  by pat_completeness auto
termination
  by (relation "measure nat") auto

declare bitLength.simps [simp del]

definition binaryExponent :: "rat \<Rightarrow> int" where
  \<comment> \<open>the \<open>e\<close> with \<open>2^e \<le> q < 2^(e+1)\<close>, for a positive \<open>q\<close>\<close>
  "binaryExponent q =
     (let (a, b) = quotient_of q;
          e = int (bitLength a) - int (bitLength b)
      in if pow2 e \<le> q then e else e - 1)"

definition roundHalfEven :: "rat \<Rightarrow> int" where
  "roundHalfEven q =
     (let n = \<lfloor>q\<rfloor>; r = q - of_int n
      in if r < 1 / 2 then n else if 1 / 2 < r then n + 1 else if even n then n else n + 1)"

definition roundPositive :: "rat \<Rightarrow> jsnumber" where
  \<comment> \<open>a significand of 53 bits, or of fewer at the least exponent \<open>-1074\<close>; a result of
      \<open>2^1024\<close> or more is \<open>Infinity\<close>\<close>
  "roundPositive q =
     (let e = max (binaryExponent q - 52) (- 1074);
          r = of_int (roundHalfEven (q / pow2 e)) * pow2 e
      in if pow2 1024 \<le> r then PosInfinity else Finite r)"

definition numberValue :: "rat \<Rightarrow> jsnumber" where
  \<comment> \<open>the Number value for a real: the value of binary64 nearest to it\<close>
  "numberValue q = (if q = 0 then Finite 0 else if 0 < q then roundPositive q
                    else js_negate (roundPositive (- q)))"

definition isDigit :: "char \<Rightarrow> bool" where
  "isDigit c = ((48::nat) \<le> of_char c \<and> of_char c \<le> (57::nat))"

definition digitValue :: "char \<Rightarrow> nat" where
  \<comment> \<open>the value of a digit of any radix up to 16, and 99 for every other character\<close>
  "digitValue c =
     (let n = of_char c :: nat in
      if 48 \<le> n \<and> n \<le> 57 then n - 48
      else if 97 \<le> n \<and> n \<le> 102 then n - 87
      else if 65 \<le> n \<and> n \<le> 70 then n - 55
      else 99)"

definition isRadixDigit :: "nat \<Rightarrow> char \<Rightarrow> bool" where
  "isRadixDigit r c = (digitValue c < r)"

definition digitsValue :: "nat \<Rightarrow> string \<Rightarrow> nat" where
  "digitsValue r ds = foldl (\<lambda>a c. a * r + digitValue c) 0 ds"

definition digitChar :: "nat \<Rightarrow> char" where
  "digitChar d = char_of (48 + d)"

function natToString :: "nat \<Rightarrow> string" where
  \<comment> \<open>the decimal digits of an array index or a count, as a template literal prints it\<close>
  "natToString n = (if n < 10 then [digitChar n] else natToString (n div 10) @ [digitChar (n mod 10)])"
  by pat_completeness auto
termination
  by (relation "measure id") auto

declare natToString.simps [simp del]

subsection \<open>\<open>Number(string)\<close> and \<open>parseInt(string)\<close>\<close>

definition pow10 :: "int \<Rightarrow> rat" where
  "pow10 e = (if 0 \<le> e then 10 ^ nat e else 1 / 10 ^ nat (- e))"

definition exponentPart :: "string \<Rightarrow> int option" where
  \<comment> \<open>what follows the mantissa: nothing, or \<open>e\<close>/\<open>E\<close>, an optional sign and digits\<close>
  "exponentPart r =
     (case r of
        [] \<Rightarrow> Some 0
      | c # r' \<Rightarrow>
          if c = CHR ''e'' \<or> c = CHR ''E'' then
            (let neg = (r' \<noteq> [] \<and> hd r' = CHR ''-'');
                 ds = (if r' \<noteq> [] \<and> (hd r' = CHR ''+'' \<or> hd r' = CHR ''-'') then tl r' else r')
             in if ds \<noteq> [] \<and> list_all isDigit ds
                then Some (if neg then - int (digitsValue 10 ds) else int (digitsValue 10 ds))
                else None)
          else None)"

definition StrUnsignedDecimalLiteral :: "string \<Rightarrow> jsnumber" where
  \<comment> \<open>\<open>Infinity\<close>, \<open>digits\<close>, \<open>digits.\<close>, \<open>digits.digits\<close> or \<open>.digits\<close>, each but the first
      with an optional exponent\<close>
  "StrUnsignedDecimalLiteral u =
     (if u = ''Infinity'' then PosInfinity
      else
        let ip = takeWhile isDigit u;
            r1 = dropWhile isDigit u;
            dot = (r1 \<noteq> [] \<and> hd r1 = CHR ''.'');
            fp = (if dot then takeWhile isDigit (tl r1) else []);
            r2 = (if dot then dropWhile isDigit (tl r1) else r1)
        in if ip = [] \<and> fp = [] then NaN
           else (case exponentPart r2 of
                   None \<Rightarrow> NaN
                 | Some e \<Rightarrow>
                     numberValue (of_nat (digitsValue 10 (ip @ fp)) * pow10 (e - int (length fp)))))"

definition nonDecimalLiteral :: "nat \<Rightarrow> string \<Rightarrow> jsnumber" where
  "nonDecimalLiteral r ds =
     (if ds \<noteq> [] \<and> list_all (isRadixDigit r) ds then numberValue (of_nat (digitsValue r ds))
      else NaN)"

definition Number :: "string \<Rightarrow> jsnumber" where
  \<comment> \<open>\<open>Number(value)\<close> of a string: white space around the literal is skipped, the empty
      literal is 0, a literal that does not parse whole is \<open>NaN\<close>\<close>
  "Number str =
     (let s = trim str in
      if s = [] then Finite 0
      else if startsWith s ''0x'' \<or> startsWith s ''0X'' then nonDecimalLiteral 16 (drop 2 s)
      else if startsWith s ''0o'' \<or> startsWith s ''0O'' then nonDecimalLiteral 8 (drop 2 s)
      else if startsWith s ''0b'' \<or> startsWith s ''0B'' then nonDecimalLiteral 2 (drop 2 s)
      else if hd s = CHR ''+'' then StrUnsignedDecimalLiteral (tl s)
      else if hd s = CHR ''-'' then js_negate (StrUnsignedDecimalLiteral (tl s))
      else StrUnsignedDecimalLiteral s)"

definition isNaN :: "jsnumber \<Rightarrow> bool" where
  "isNaN x = (x = NaN)"

definition parseInt :: "string \<Rightarrow> jsnumber" where
  \<comment> \<open>\<open>parseInt(string)\<close> with no radix: leading white space, an optional sign, an optional
      \<open>0x\<close>, then the longest run of digits; \<open>NaN\<close> when that run is empty\<close>
  "parseInt str =
     (let s0 = trimStart str;
          neg = (s0 \<noteq> [] \<and> hd s0 = CHR ''-'');
          s1 = (if s0 \<noteq> [] \<and> (hd s0 = CHR ''+'' \<or> hd s0 = CHR ''-'') then tl s0 else s0);
          hex = (startsWith s1 ''0x'' \<or> startsWith s1 ''0X'');
          r = (if hex then 16 else 10);
          s2 = (if hex then drop 2 s1 else s1);
          z = takeWhile (isRadixDigit r) s2
      in if z = [] then NaN
         else if neg then js_negate (numberValue (of_nat (digitsValue r z)))
         else numberValue (of_nat (digitsValue r z)))"

subsection \<open>The arithmetic of \<open>execute\<close>\<close>

definition js_gt :: "jsnumber \<Rightarrow> jsnumber \<Rightarrow> bool" where
  "js_gt x y =
     (case (x, y) of
        (NaN, _) \<Rightarrow> False | (_, NaN) \<Rightarrow> False
      | (PosInfinity, PosInfinity) \<Rightarrow> False | (PosInfinity, _) \<Rightarrow> True
      | (_, PosInfinity) \<Rightarrow> False
      | (NegInfinity, _) \<Rightarrow> False | (_, NegInfinity) \<Rightarrow> True
      | (Finite a, Finite b) \<Rightarrow> b < a)"

definition js_add :: "jsnumber \<Rightarrow> jsnumber \<Rightarrow> jsnumber" where
  "js_add x y =
     (case (x, y) of
        (NaN, _) \<Rightarrow> NaN | (_, NaN) \<Rightarrow> NaN
      | (PosInfinity, NegInfinity) \<Rightarrow> NaN | (NegInfinity, PosInfinity) \<Rightarrow> NaN
      | (PosInfinity, _) \<Rightarrow> PosInfinity | (_, PosInfinity) \<Rightarrow> PosInfinity
      | (NegInfinity, _) \<Rightarrow> NegInfinity | (_, NegInfinity) \<Rightarrow> NegInfinity
      | (Finite a, Finite b) \<Rightarrow> numberValue (a + b))"

definition js_div :: "jsnumber \<Rightarrow> jsnumber \<Rightarrow> jsnumber" where
  \<comment> \<open>a zero divisor counts as \<open>+0\<close>\<close>
  "js_div x y =
     (case (x, y) of
        (NaN, _) \<Rightarrow> NaN | (_, NaN) \<Rightarrow> NaN
      | (Finite a, Finite b) \<Rightarrow>
          if b \<noteq> 0 then numberValue (a / b)
          else if a = 0 then NaN else if 0 < a then PosInfinity else NegInfinity
      | (Finite a, _) \<Rightarrow> Finite 0
      | (PosInfinity, Finite b) \<Rightarrow> if 0 \<le> b then PosInfinity else NegInfinity
      | (NegInfinity, Finite b) \<Rightarrow> if 0 \<le> b then NegInfinity else PosInfinity
      | (_, _) \<Rightarrow> NaN)"

definition Math_floor :: "jsnumber \<Rightarrow> jsnumber" where
  "Math_floor x = (case x of Finite q \<Rightarrow> Finite (of_int \<lfloor>q\<rfloor>) | _ \<Rightarrow> x)"

definition Math_ceil :: "jsnumber \<Rightarrow> jsnumber" where
  "Math_ceil x = (case x of Finite q \<Rightarrow> Finite (of_int \<lceil>q\<rceil>) | _ \<Rightarrow> x)"

subsection \<open>Values and their conversion to strings\<close>

abbreviation sq :: string where
  \<comment> \<open>the single quote, which no string literal can end with\<close>
  "sq \<equiv> [CHR 0x27]"

abbreviation dq :: string where
  "dq \<equiv> [CHR 0x22]"

function norm10 :: "nat \<Rightarrow> int \<Rightarrow> nat \<times> int" where
  \<comment> \<open>\<open>m \<times> 10^e\<close> with the trailing zeros of \<open>m\<close> moved into \<open>e\<close>\<close>
  "norm10 m e = (if m \<noteq> 0 \<and> m mod 10 = 0 then norm10 (m div 10) (e + 1) else (m, e))"
  by pat_completeness auto
termination
  by (relation "measure fst") auto

declare norm10.simps [simp del]

definition decimalExponent :: "rat \<Rightarrow> int" where
  \<comment> \<open>the \<open>n\<close> with \<open>10^(n-1) \<le> q < 10^n\<close>, for a positive \<open>q\<close>\<close>
  "decimalExponent q =
     (let (a, b) = quotient_of q;
          n = int (length (natToString (nat a))) - int (length (natToString (nat b)))
      in if pow10 n \<le> q then n + 1 else n)"

definition roundTrip :: "rat \<Rightarrow> nat \<Rightarrow> int \<Rightarrow> bool" where
  "roundTrip q s e = (numberValue (of_nat s * pow10 e) = Finite q)"

definition digitsOfLength :: "rat \<Rightarrow> nat \<Rightarrow> (nat \<times> int) option" where
  \<comment> \<open>an \<open>s\<close> of \<open>k\<close> digits and an \<open>e\<close> with \<open>s \<times> 10^e\<close> rounding to \<open>q\<close>, the nearer to
      \<open>q\<close> of the two candidates when both do\<close>
  "digitsOfLength q k =
     (let e = decimalExponent q - int k;
          lo = nat \<lfloor>q / pow10 e\<rfloor>;
          hi = lo + 1;
          dlo = q - of_nat lo * pow10 e;
          dhi = of_nat hi * pow10 e - q;
          nearLo = (dlo < dhi \<or> (dlo = dhi \<and> even lo))
      in if roundTrip q lo e \<and> (nearLo \<or> \<not> roundTrip q hi e) then Some (lo, e)
         else if roundTrip q hi e then Some (hi, e)
         else None)"

fun shortestFrom :: "rat \<Rightarrow> nat \<Rightarrow> nat \<Rightarrow> (nat \<times> int) option" where
  "shortestFrom q k 0 = None"
| "shortestFrom q k (Suc fuel) =
     (case digitsOfLength q k of
        Some d \<Rightarrow> Some d
      | None \<Rightarrow> shortestFrom q (Suc k) fuel)"

definition decimalOf :: "rat \<Rightarrow> (nat \<times> int) option" where
  \<comment> \<open>the \<open>(s, e)\<close> of fewest digits with \<open>s \<times> 10^e\<close> rounding to the positive value \<open>q\<close>;
      17 digits are enough for every value of binary64\<close>
  "decimalOf q = map_option (\<lambda>(s, e). norm10 s e) (shortestFrom q 1 17)"

definition positiveToString :: "rat \<Rightarrow> string" where
  \<comment> \<open>\<open>Number::toString\<close> of a positive number with digits \<open>ds\<close> (\<open>k\<close> of them) and decimal
      point after the \<open>n\<close>-th; the first case is for a rational that is no value of
      binary64, which no operation returns\<close>
  "positiveToString q =
     (case decimalOf q of
        None \<Rightarrow> ''NaN''
      | Some (s, e) \<Rightarrow>
          let ds = natToString s; k = int (length ds); n = k + e in
          if k \<le> n \<and> n \<le> 21 then ds @ replicate (nat (n - k)) CHR ''0''
          else if 0 < n \<and> n \<le> 21 then take (nat n) ds @ ''.'' @ drop (nat n) ds
          else if - 6 < n \<and> n \<le> 0 then ''0.'' @ replicate (nat (- n)) CHR ''0'' @ ds
          else (if k = 1 then ds else [hd ds] @ ''.'' @ tl ds) @ ''e''
               @ (if 0 \<le> n - 1 then ''+'' else ''-'') @ natToString (nat \<bar>n - 1\<bar>))"

definition numberToString :: "jsnumber \<Rightarrow> string" where
  "numberToString x =
     (case x of
        NaN \<Rightarrow> ''NaN''
      | PosInfinity \<Rightarrow> ''Infinity''
      | NegInfinity \<Rightarrow> ''-Infinity''
      | Finite q \<Rightarrow> if q = 0 then ''0''
                    else if q < 0 then ''-'' @ positiveToString (- q)
                    else positiveToString q)"

datatype jsvalue = JString string | JNumber jsnumber | JBoolean bool | JNull

definition ToString :: "jsvalue \<Rightarrow> string" where
  \<comment> \<open>what a template literal makes of a value\<close>
  "ToString v =
     (case v of
        JString s \<Rightarrow> s
      | JNumber x \<Rightarrow> numberToString x
      | JBoolean b \<Rightarrow> if b then ''true'' else ''false''
      | JNull \<Rightarrow> ''null'')"

subsection \<open>Regular expressions of the shapes the filter grammar uses\<close>

text \<open>
  A pattern is a sequence of literals and of the two capture groups \<open>(.+?)\<close> and \<open>(.+)\<close>.
  Matching backtracks as the engine of the language does: a lazy group tries the shortest
  capture first, a greedy group the longest, and \<open>match\<close> returns the groups of the first
  start index with a match.
\<close>

datatype atom = Lit string | LazyGroup | GreedyGroup

datatype regex = Regex (atoms: "atom list") (ignoreCase: bool)

fun isGroup :: "atom \<Rightarrow> bool" where
  "isGroup (Lit l) = False"
| "isGroup LazyGroup = True"
| "isGroup GreedyGroup = True"

definition litAt :: "bool \<Rightarrow> string \<Rightarrow> string \<Rightarrow> bool" where
  \<comment> \<open>the literal stands at the head of the input; under the flag \<open>i\<close> both sides are
      compared upper-cased, which is exact for the ASCII literals of the strategies\<close>
  "litAt ic l s =
     (length l \<le> length s \<and>
      (if ic then map upperChar (take (length l) s) = map upperChar l
       else take (length l) s = l))"

fun lazyPlus :: "(string \<Rightarrow> string \<Rightarrow> 'a option) \<Rightarrow> string \<Rightarrow> string \<Rightarrow> 'a option" where
  "lazyPlus k cap [] = None"
| "lazyPlus k cap (c # cs) =
     (if isLineTerminator c then None
      else (case k (cap @ [c]) cs of
              Some r \<Rightarrow> Some r
            | None \<Rightarrow> lazyPlus k (cap @ [c]) cs))"

fun greedyPlus :: "(string \<Rightarrow> string \<Rightarrow> 'a option) \<Rightarrow> string \<Rightarrow> string \<Rightarrow> 'a option" where
  "greedyPlus k cap [] = None"
| "greedyPlus k cap (c # cs) =
     (if isLineTerminator c then None
      else (case greedyPlus k (cap @ [c]) cs of
              Some r \<Rightarrow> Some r
            | None \<Rightarrow> k (cap @ [c]) cs))"

fun matchHere :: "bool \<Rightarrow> atom list \<Rightarrow> string \<Rightarrow> string list option" where
  "matchHere ic [] s = Some []"
| "matchHere ic (Lit l # as) s =
     (if litAt ic l s then matchHere ic as (drop (length l) s) else None)"
| "matchHere ic (LazyGroup # as) s =
     lazyPlus (\<lambda>cap rest. map_option ((#) cap) (matchHere ic as rest)) [] s"
| "matchHere ic (GreedyGroup # as) s =
     greedyPlus (\<lambda>cap rest. map_option ((#) cap) (matchHere ic as rest)) [] s"

fun matchFrom :: "regex \<Rightarrow> string \<Rightarrow> string list option" where
  "matchFrom re [] = matchHere (ignoreCase re) (atoms re) []"
| "matchFrom re (c # cs) =
     (case matchHere (ignoreCase re) (atoms re) (c # cs) of
        Some groups \<Rightarrow> Some groups
      | None \<Rightarrow> matchFrom re cs)"

definition str_match :: "string \<Rightarrow> regex \<Rightarrow> string list option" where
  \<comment> \<open>\<open>s.match(re)\<close> without the flag \<open>g\<close>: \<open>None\<close> is \<open>null\<close>, otherwise the capture groups
      \<open>match[1]\<close>, \<open>match[2]\<close>, ...\<close>
  "str_match s re = matchFrom re s"

section \<open>\<open>ODataBuilder\<close>\<close>

text \<open>
  The request is the decoded query string: each option is absent or a string. The query
  builder of the storage layer is seen through the calls it receives, in order, as the mock
  of the test suite records them. \<open>TypeError\<close> is what reading a property of \<open>undefined\<close>
  throws.
\<close>

datatype error = TypeError

record request =
  q_filter :: "string option"
  q_orderby :: "string option"
  q_expand :: "string option"
  q_top :: "string option"
  q_skip :: "string option"

record query_builder =
  take_calls :: "jsnumber list"
  skip_calls :: "jsnumber list"
  addOrderBy_calls :: "(string \<times> string) list"
  leftJoinAndSelect_calls :: "(string \<times> string) list"
  andWhere_calls :: "(string \<times> (string \<times> jsvalue) list) list"

record ODataBuilder =
  queryBuilder :: query_builder
  request :: request
  allowedFiltersList :: "string list"
  allowedSortsList :: "string list"
  allowedExpandsList :: "string list"

text \<open>
  The object \<open>execute\<close> returns, \<open>from\<close> and \<open>to\<close> under the names \<open>from_row\<close> and \<open>to_row\<close>.
\<close>

record 'row ODataResponse =
  data :: "'row list"
  current_page :: jsnumber
  from_row :: jsnumber
  last_page :: jsnumber
  per_page :: jsnumber
  to_row :: jsnumber
  total :: jsnumber

definition createQueryBuilder :: query_builder where
  "createQueryBuilder =
     \<lparr>take_calls = [], skip_calls = [], addOrderBy_calls = [],
      leftJoinAndSelect_calls = [], andWhere_calls = []\<rparr>"

definition ODataBuilder_for :: "request \<Rightarrow> ODataBuilder" where
  "ODataBuilder_for req =
     \<lparr>queryBuilder = createQueryBuilder, request = req,
      allowedFiltersList = [], allowedSortsList = [], allowedExpandsList = []\<rparr>"

definition allowedFilters :: "string list \<Rightarrow> ODataBuilder \<Rightarrow> ODataBuilder" where
  "allowedFilters filters this = this\<lparr>allowedFiltersList := filters\<rparr>"

definition allowedSorts :: "string list \<Rightarrow> ODataBuilder \<Rightarrow> ODataBuilder" where
  "allowedSorts sorts this = this\<lparr>allowedSortsList := sorts\<rparr>"

definition allowedExpands :: "string list \<Rightarrow> ODataBuilder \<Rightarrow> ODataBuilder" where
  "allowedExpands expands this = this\<lparr>allowedExpandsList := expands\<rparr>"

definition take_qb :: "jsnumber \<Rightarrow> ODataBuilder \<Rightarrow> ODataBuilder" where
  "take_qb n this =
     this\<lparr>queryBuilder := (queryBuilder this)\<lparr>take_calls := take_calls (queryBuilder this) @ [n]\<rparr>\<rparr>"

definition skip_qb :: "jsnumber \<Rightarrow> ODataBuilder \<Rightarrow> ODataBuilder" where
  "skip_qb n this =
     this\<lparr>queryBuilder := (queryBuilder this)\<lparr>skip_calls := skip_calls (queryBuilder this) @ [n]\<rparr>\<rparr>"

definition addOrderBy :: "string \<Rightarrow> string \<Rightarrow> ODataBuilder \<Rightarrow> ODataBuilder" where
  "addOrderBy sortBy order this =
     this\<lparr>queryBuilder := (queryBuilder this)
       \<lparr>addOrderBy_calls := addOrderBy_calls (queryBuilder this) @ [(sortBy, order)]\<rparr>\<rparr>"

definition leftJoinAndSelect :: "string \<Rightarrow> string \<Rightarrow> ODataBuilder \<Rightarrow> ODataBuilder" where
  "leftJoinAndSelect property alias this =
     this\<lparr>queryBuilder := (queryBuilder this)
       \<lparr>leftJoinAndSelect_calls := leftJoinAndSelect_calls (queryBuilder this) @ [(property, alias)]\<rparr>\<rparr>"

definition andWhere :: "string \<Rightarrow> (string \<times> jsvalue) list \<Rightarrow> ODataBuilder \<Rightarrow> ODataBuilder" where
  "andWhere condition parameters this =
     this\<lparr>queryBuilder := (queryBuilder this)
       \<lparr>andWhere_calls := andWhere_calls (queryBuilder this) @ [(condition, parameters)]\<rparr>\<rparr>"

subsection \<open>\<open>applyPagination\<close>, \<open>applySorts\<close>, \<open>applyExpands\<close>\<close>

definition applyPagination :: "ODataBuilder \<Rightarrow> ODataBuilder" where
  \<comment> \<open>an option that is absent or the empty string is false in a condition\<close>
  "applyPagination this =
     (let this1 = (case q_top (request this) of
                     None \<Rightarrow> this
                   | Some t \<Rightarrow> if t = [] then this else take_qb (parseInt t) this)
      in case q_skip (request this1) of
           None \<Rightarrow> this1
         | Some s \<Rightarrow> if s = [] then this1 else skip_qb (parseInt s) this1)"

definition applySort :: "string \<Rightarrow> ODataBuilder \<Rightarrow> error + ODataBuilder" where
  \<comment> \<open>the body of the \<open>forEach\<close> of \<open>applySorts\<close>; \<open>field\<close> and \<open>dir\<close> are the first two
      elements of the split, each \<open>undefined\<close> when the split is too short\<close>
  "applySort sortEntry this =
     (case split (trim sortEntry) '' '' of
        [] \<Rightarrow> if allowedSortsList this \<noteq> [] then Inr this else Inl TypeError
      | field # rest \<Rightarrow>
          if allowedSortsList this \<noteq> [] \<and> field \<notin> set (allowedSortsList this) then Inr this
          else (case rest of
                  [] \<Rightarrow> Inl TypeError
                | dir # _ \<Rightarrow> Inr (addOrderBy (''entity.'' @ field) (toUpperCase dir) this)))"

fun applySorts_forEach :: "string list \<Rightarrow> ODataBuilder \<Rightarrow> error + ODataBuilder" where
  "applySorts_forEach [] this = Inr this"
| "applySorts_forEach (sortEntry # sorts) this =
     (case applySort sortEntry this of
        Inl e \<Rightarrow> Inl e
      | Inr this' \<Rightarrow> applySorts_forEach sorts this')"

definition applySorts :: "ODataBuilder \<Rightarrow> error + ODataBuilder" where
  "applySorts this =
     (case q_orderby (request this) of
        None \<Rightarrow> Inr this
      | Some orderby \<Rightarrow>
          if orderby = [] then Inr this
          else applySorts_forEach (split orderby '','') this)"

definition applyExpand :: "string \<Rightarrow> ODataBuilder \<Rightarrow> ODataBuilder" where
  "applyExpand expand this =
     (let relation = trim expand in
      if allowedExpandsList this \<noteq> [] \<and> relation \<notin> set (allowedExpandsList this) then this
      else leftJoinAndSelect (''entity.'' @ relation) relation this)"

definition applyExpands :: "ODataBuilder \<Rightarrow> ODataBuilder" where
  "applyExpands this =
     (case q_expand (request this) of
        None \<Rightarrow> this
      | Some expand \<Rightarrow>
          if expand = [] then this
          else foldl (\<lambda>this' e. applyExpand e this') this (split expand '',''))"

subsection \<open>\<open>parseValue\<close>\<close>

definition parseValue :: "string \<Rightarrow> jsvalue" where
  "parseValue value =
     (if startsWith value dq \<and> endsWith value dq then JString (slice_1_m1 value)
      else if startsWith value sq \<and> endsWith value sq then JString (slice_1_m1 value)
      else if value = ''true'' then JBoolean True
      else if value = ''false'' then JBoolean False
      else if value = ''null'' then JNull
      else if \<not> isNaN (Number value) then JNumber (Number value)
      else JString value)"

definition parseValue_arg :: "string option \<Rightarrow> error + jsvalue" where
  \<comment> \<open>\<open>this.parseValue(value)\<close> for a second group that may be \<open>undefined\<close>, on which
      \<open>value.startsWith\<close> throws\<close>
  "parseValue_arg value = (case value of None \<Rightarrow> Inl TypeError | Some v \<Rightarrow> Inr (parseValue v))"

subsection \<open>\<open>addWhere\<close>, \<open>parseAndApplyFilter\<close>, \<open>applyFilters\<close>\<close>

definition addWhere :: "string \<Rightarrow> (string \<times> jsvalue) list \<Rightarrow> ODataBuilder \<Rightarrow> ODataBuilder" where
  "addWhere condition parameters this =
     andWhere
       (if \<not> startsWith condition ''entity.'' \<and> \<not> str_includes condition ''.''
        then ''entity.'' @ condition else condition)
       parameters this"

record strategy =
  pattern :: regex
  handle :: "string \<Rightarrow> string option \<Rightarrow> ODataBuilder \<Rightarrow> error + ODataBuilder"

definition strategies :: "nat \<Rightarrow> strategy list" where
  "strategies index =
    [\<lparr>pattern = Regex [LazyGroup, Lit ('' eq 'null'' @ sq)] True,
      handle = (\<lambda>field value this. Inr (addWhere (field @ '' IS NULL'') [] this))\<rparr>,
     \<lparr>pattern = Regex [LazyGroup, Lit ('' ne 'null'' @ sq)] True,
      handle = (\<lambda>field value this. Inr (addWhere (field @ '' IS NOT NULL'') [] this))\<rparr>,
     \<lparr>pattern = Regex [LazyGroup, Lit '' eq '', GreedyGroup] False,
      handle = (\<lambda>field value this. map_sum id
        (\<lambda>v. addWhere (field @ '' = :val'' @ natToString index)
               [(''val'' @ natToString index, v)] this) (parseValue_arg value))\<rparr>,
     \<lparr>pattern = Regex [LazyGroup, Lit '' ne '', GreedyGroup] False,
      handle = (\<lambda>field value this. map_sum id
        (\<lambda>v. addWhere (field @ '' != :val'' @ natToString index)
               [(''val'' @ natToString index, v)] this) (parseValue_arg value))\<rparr>,
     \<lparr>pattern = Regex [LazyGroup, Lit '' gt '', GreedyGroup] False,
      handle = (\<lambda>field value this. map_sum id
        (\<lambda>v. addWhere (field @ '' > :val'' @ natToString index)
               [(''val'' @ natToString index, v)] this) (parseValue_arg value))\<rparr>,
     \<lparr>pattern = Regex [LazyGroup, Lit '' ge '', GreedyGroup] False,
      handle = (\<lambda>field value this. map_sum id
        (\<lambda>v. addWhere (field @ '' >= :val'' @ natToString index)
               [(''val'' @ natToString index, v)] this) (parseValue_arg value))\<rparr>,
     \<lparr>pattern = Regex [LazyGroup, Lit '' lt '', GreedyGroup] False,
      handle = (\<lambda>field value this. map_sum id
        (\<lambda>v. addWhere (field @ '' < :val'' @ natToString index)
               [(''val'' @ natToString index, v)] this) (parseValue_arg value))\<rparr>,
     \<lparr>pattern = Regex [LazyGroup, Lit '' le '', GreedyGroup] False,
      handle = (\<lambda>field value this. map_sum id
        (\<lambda>v. addWhere (field @ '' <= :val'' @ natToString index)
               [(''val'' @ natToString index, v)] this) (parseValue_arg value))\<rparr>,
     \<lparr>pattern = Regex [Lit ''contains('', LazyGroup, Lit '','', LazyGroup, Lit '')''] False,
      handle = (\<lambda>field value this. map_sum id
        (\<lambda>v. addWhere (field @ '' LIKE :val'' @ natToString index)
               [(''val'' @ natToString index, JString (''%'' @ ToString v @ ''%''))] this)
        (parseValue_arg value))\<rparr>,
     \<lparr>pattern = Regex [Lit ''startswith('', LazyGroup, Lit '','', LazyGroup, Lit '')''] False,
      handle = (\<lambda>field value this. map_sum id
        (\<lambda>v. addWhere (field @ '' LIKE :val'' @ natToString index)
               [(''val'' @ natToString index, JString (ToString v @ ''%''))] this)
        (parseValue_arg value))\<rparr>,
     \<lparr>pattern = Regex [Lit ''endswith('', LazyGroup, Lit '','', LazyGroup, Lit '')''] False,
      handle = (\<lambda>field value this. map_sum id
        (\<lambda>v. addWhere (field @ '' LIKE :val'' @ natToString index)
               [(''val'' @ natToString index, JString (''%'' @ ToString v))] this)
        (parseValue_arg value))\<rparr>]"

fun parseAndApplyFilter_for :: "strategy list \<Rightarrow> string \<Rightarrow> ODataBuilder \<Rightarrow> error + ODataBuilder" where
  \<comment> \<open>the loop over the strategies; \<open>match[1]\<close> is the first group, \<open>match[2]\<close> the second
      or \<open>undefined\<close>\<close>
  "parseAndApplyFilter_for [] filterStr this = Inr this"
| "parseAndApplyFilter_for (strategy # rest) filterStr this =
     (case str_match filterStr (pattern strategy) of
        None \<Rightarrow> parseAndApplyFilter_for rest filterStr this
      | Some groups \<Rightarrow>
          (case groups of
             [] \<Rightarrow> Inl TypeError
           | g1 # gs \<Rightarrow>
               let field = trim g1;
                   value = (case gs of [] \<Rightarrow> None | g2 # _ \<Rightarrow> Some (trim g2))
               in if allowedFiltersList this \<noteq> [] \<and> field \<notin> set (allowedFiltersList this)
                  then Inr this
                  else handle strategy field value this))"

definition parseAndApplyFilter :: "string \<Rightarrow> nat \<Rightarrow> ODataBuilder \<Rightarrow> error + ODataBuilder" where
  "parseAndApplyFilter filterStr index this =
     parseAndApplyFilter_for (strategies index) filterStr this"

fun applyFilters_forEach :: "string list \<Rightarrow> nat \<Rightarrow> ODataBuilder \<Rightarrow> error + ODataBuilder" where
  "applyFilters_forEach [] index this = Inr this"
| "applyFilters_forEach (part # parts) index this =
     (case parseAndApplyFilter (trim part) index this of
        Inl e \<Rightarrow> Inl e
      | Inr this' \<Rightarrow> applyFilters_forEach parts (Suc index) this')"

definition applyFilters :: "ODataBuilder \<Rightarrow> error + ODataBuilder" where
  "applyFilters this =
     (case q_filter (request this) of
        None \<Rightarrow> Inr this
      | Some f \<Rightarrow>
          if f = [] then Inr this
          else applyFilters_forEach (split f '' and '') 0 this)"

subsection \<open>\<open>execute\<close>\<close>

definition envelope :: "jsnumber \<Rightarrow> jsnumber \<Rightarrow> 'row list \<Rightarrow> nat \<Rightarrow> 'row ODataResponse" where
  \<comment> \<open>lines 48 to 62 of \<open>execute\<close>: the page arithmetic and the object returned\<close>
  "envelope skip limit rows count =
     (let tot = Finite (of_nat count) in
      \<lparr>data = rows,
       current_page = (if js_gt limit (Finite 0)
                       then js_add (Math_floor (js_div skip limit)) (Finite 1) else Finite 1),
       from_row = (if count = 0 then Finite 0 else js_add skip (Finite 1)),
       last_page = (if js_gt limit (Finite 0) then Math_ceil (js_div tot limit) else Finite 1),
       per_page = (if js_gt limit (Finite 0) then limit else tot),
       to_row = (if count = 0 then Finite 0 else js_add skip (Finite (of_nat (length rows)))),
       total = tot\<rparr>)"

definition execute ::
  "(query_builder \<Rightarrow> 'row list \<times> nat) \<Rightarrow> ODataBuilder \<Rightarrow> error + 'row ODataResponse" where
  \<comment> \<open>\<open>getManyAndCount\<close> is the storage layer's: the rows of the page and the count of all
      rows that match\<close>
  "execute getManyAndCount this =
     (case applyFilters this of
        Inl e \<Rightarrow> Inl e
      | Inr this1 \<Rightarrow>
          (case applySorts this1 of
             Inl e \<Rightarrow> Inl e
           | Inr this2 \<Rightarrow>
               let this3 = applyExpands this2;
                   this4 = applyPagination this3;
                   (rows, count) = getManyAndCount (queryBuilder this4);
                   skip = (case q_skip (request this4) of
                             None \<Rightarrow> Finite 0
                           | Some s \<Rightarrow> if s = [] then Finite 0 else parseInt s);
                   limit = (case q_top (request this4) of
                              None \<Rightarrow> Finite 0
                            | Some t \<Rightarrow> if t = [] then Finite 0 else parseInt t)
               in Inr (envelope skip limit rows count)))"

definition getQueryBuilder :: "ODataBuilder \<Rightarrow> query_builder" where
  "getQueryBuilder this = queryBuilder this"

section \<open>Notions of the specification, for the statements\<close>

subsection \<open>An entry of \<open>$orderby\<close>\<close>




subsection \<open>Value coercion, in the words of section 4.1\<close>

definition quotedBy :: "string \<Rightarrow> string \<Rightarrow> bool" where
  \<comment> \<open>surrounded by a matching pair of quotes: the pair needs two characters\<close>
  "quotedBy q raw = (2 \<le> length raw \<and> startsWith raw q \<and> endsWith raw q)"

definition specUnsigned :: "string \<Rightarrow> bool" where
  \<comment> \<open>an integer or decimal literal: digits, or digits, a point and digits\<close>
  "specUnsigned u =
     (let ip = takeWhile isDigit u; r = dropWhile isDigit u
      in ip \<noteq> [] \<and> (r = [] \<or> (hd r = CHR ''.'' \<and> tl r \<noteq> [] \<and> list_all isDigit (tl r))))"

definition specNumeric :: "string \<Rightarrow> bool" where
  \<comment> \<open>\<open>integer or decimal, optional leading -\<close>\<close>
  "specNumeric raw =
     (if raw \<noteq> [] \<and> hd raw = CHR ''-'' then specUnsigned (tl raw) else specUnsigned raw)"

definition coerce :: "string \<Rightarrow> jsvalue" where
  \<comment> \<open>the five rules of the specification, in order\<close>
  "coerce raw =
     (if quotedBy dq raw \<or> quotedBy sq raw then JString (slice_1_m1 raw)
      else if raw = ''true'' then JBoolean True
      else if raw = ''false'' then JBoolean False
      else if raw = ''null'' then JNull
      else if specNumeric raw then JNumber (Number raw)
      else JString raw)"

subsection \<open>Clause descriptors and predicate descriptors, in the words of sections 4.2 and 4.4\<close>

datatype OperatorKind =
  IsNull | IsNotNull | Eq | Ne | Gt | Ge | Lt | Le | Contains | StartsWith | EndsWith

definition grammarKinds :: "OperatorKind list" where
  \<comment> \<open>the kind each grammar stands for, in the priority order of the strategies\<close>
  "grammarKinds = [IsNull, IsNotNull, Eq, Ne, Gt, Ge, Lt, Le, Contains, StartsWith, EndsWith]"

fun firstMatch :: "regex list \<Rightarrow> string \<Rightarrow> (nat \<times> string list) option" where
  \<comment> \<open>first match wins: the position of the first pattern that matches, and its groups\<close>
  "firstMatch [] s = None"
| "firstMatch (re # res) s =
     (case str_match s re of
        Some groups \<Rightarrow> Some (0, groups)
      | None \<Rightarrow> map_option (\<lambda>(k, groups). (Suc k, groups)) (firstMatch res s))"

definition clauseOf :: "string \<Rightarrow> (OperatorKind \<times> string \<times> string option) option" where
  \<comment> \<open>the clause descriptor of a trimmed clause: operator, trimmed field, trimmed raw value;
      \<open>None\<close> for a clause that matches no grammar. The patterns are those of the
      strategies, which do not depend on the index.\<close>
  "clauseOf clause =
     (case firstMatch (map pattern (strategies 0)) clause of
        None \<Rightarrow> None
      | Some (k, groups) \<Rightarrow>
          (case groups of
             [] \<Rightarrow> None
           | g1 # gs \<Rightarrow>
               Some (grammarKinds ! k, trim g1,
                     case gs of [] \<Rightarrow> None | g2 # _ \<Rightarrow> Some (trim g2))))"


definition isAllowed :: "string \<Rightarrow> string list \<Rightarrow> bool" where
  "isAllowed field allowList = (allowList = [] \<or> field \<in> set allowList)"

definition qualify :: "string \<Rightarrow> string" where
  \<comment> \<open>a field with no path separator is put under the root alias\<close>
  "qualify field = (if CHR ''.'' \<in> set field then field else ''entity.'' @ field)"

definition carriesValue :: "OperatorKind \<Rightarrow> bool" where
  "carriesValue kind = (kind \<noteq> IsNull \<and> kind \<noteq> IsNotNull)"

fun operatorText :: "OperatorKind \<Rightarrow> string" where
  "operatorText IsNull = '' IS NULL''"
| "operatorText IsNotNull = '' IS NOT NULL''"
| "operatorText Eq = '' = ''"
| "operatorText Ne = '' != ''"
| "operatorText Gt = '' > ''"
| "operatorText Ge = '' >= ''"
| "operatorText Lt = '' < ''"
| "operatorText Le = '' <= ''"
| "operatorText Contains = '' LIKE ''"
| "operatorText StartsWith = '' LIKE ''"
| "operatorText EndsWith = '' LIKE ''"

definition placeholder :: "nat \<Rightarrow> string" where
  "placeholder index = ''val'' @ natToString index"

definition templateOf :: "OperatorKind \<Rightarrow> string \<Rightarrow> nat \<Rightarrow> string" where
  "templateOf kind field index =
     qualify field @ operatorText kind @ (if carriesValue kind then '':'' @ placeholder index else [])"

fun boundValue :: "OperatorKind \<Rightarrow> jsvalue \<Rightarrow> jsvalue" where
  "boundValue Contains v = JString (''%'' @ ToString v @ ''%'')"
| "boundValue StartsWith v = JString (ToString v @ ''%'')"
| "boundValue EndsWith v = JString (''%'' @ ToString v)"
| "boundValue kind v = v"

definition bindingsOf :: "OperatorKind \<Rightarrow> string option \<Rightarrow> nat \<Rightarrow> (string \<times> jsvalue) list" where
  "bindingsOf kind rawValue index =
     (case rawValue of
        None \<Rightarrow> []
      | Some raw \<Rightarrow>
          if carriesValue kind then [(placeholder index, boundValue kind (parseValue raw))] else [])"

definition translate ::
  "string list \<Rightarrow> string \<Rightarrow> nat \<Rightarrow> (string \<times> (string \<times> jsvalue) list) option" where
  \<comment> \<open>the predicate descriptor of a trimmed clause at its index; \<open>None\<close> for a clause that
      is no clause or whose field is rejected\<close>
  "translate allowList clause index =
     (case clauseOf clause of
        None \<Rightarrow> None
      | Some (kind, field, rawValue) \<Rightarrow>
          if isAllowed field allowList
          then Some (templateOf kind field index, bindingsOf kind rawValue index)
          else None)"

fun predicatesOf ::
  "string list \<Rightarrow> string list \<Rightarrow> nat \<Rightarrow> (string \<times> (string \<times> jsvalue) list) list" where
  \<comment> \<open>the predicates of the parts of a filter, the first part at the given index\<close>
  "predicatesOf allowList [] index = []"
| "predicatesOf allowList (part # parts) index =
     (case translate allowList (trim part) index of None \<Rightarrow> [] | Some p \<Rightarrow> [p])
     @ predicatesOf allowList parts (Suc index)"

subsection \<open>The response envelope, in the words of section 4.6\<close>

definition build :: "'row list \<Rightarrow> nat \<Rightarrow> nat \<Rightarrow> nat \<Rightarrow> 'row ODataResponse" where
  \<comment> \<open>all integer arithmetic: \<open>div\<close> is the floor of the quotient, and the ceiling of
      \<open>count / limit\<close> is \<open>(count + limit - 1) div limit\<close>\<close>
  "build rows count skip limit =
     \<lparr>data = rows,
      current_page = Finite (of_nat (if 0 < limit then skip div limit + 1 else 1)),
      from_row = Finite (of_nat (if count = 0 then 0 else skip + 1)),
      last_page = Finite (of_nat (if 0 < limit then (count + limit - 1) div limit else 1)),
      per_page = Finite (of_nat (if 0 < limit then limit else count)),
      to_row = Finite (of_nat (if count = 0 then 0 else skip + length rows)),
      total = Finite (of_nat count)\<rparr>"

section \<open>Rounding to binary64\<close>

lemma pow2_powi: "pow2 e = 2 powi e"
  by (simp add: pow2_def power_int_def inverse_eq_divide power_one_over)

lemma pow2_pos: "0 < pow2 e"
  by (simp add: pow2_powi)

lemma pow2_add: "pow2 (a + b) = pow2 a * pow2 b"
  by (simp add: pow2_powi power_int_add)

lemma pow2_mono: "a \<le> b \<Longrightarrow> pow2 a \<le> pow2 b"
  by (simp add: pow2_powi power_int_increasing)

lemma pow2_nat: "pow2 (int n) = 2 ^ n"
  by (simp add: pow2_def)

lemma bitLength_bounds:
  "0 < n \<Longrightarrow> 2 ^ (bitLength n - 1) \<le> n \<and> n < 2 ^ bitLength n"
proof (induction n rule: bitLength.induct)
  case (1 n)
  show ?case
  proof (cases "n = 1")
    case True
    have "bitLength 1 = 1"
      by (subst bitLength.simps, subst bitLength.simps) simp
    with True show ?thesis by simp
  next
    case False
    with "1.prems" have h: "0 < n div 2" by simp
    from "1.IH" h "1.prems" have IH: "2 ^ (bitLength (n div 2) - 1) \<le> n div 2" "n div 2 < 2 ^ bitLength (n div 2)"
      by simp_all
    have pos: "0 < bitLength (n div 2)"
      using h by (subst bitLength.simps) simp
    have b: "bitLength n = Suc (bitLength (n div 2))"
      using "1.prems" by (subst bitLength.simps) simp
    have "2 ^ (bitLength n - 1) = 2 * 2 ^ (bitLength (n div 2) - 1)"
      using pos b by (cases "bitLength (n div 2)") simp_all
    also have "\<dots> \<le> 2 * (n div 2)"
      using IH(1) by simp
    also have "\<dots> \<le> n" by simp
    finally have lo: "2 ^ (bitLength n - 1) \<le> n" .
    have "n < 2 * (n div 2) + 2" by simp
    also have "\<dots> \<le> 2 * 2 ^ bitLength (n div 2)"
      using IH(2) by simp
    finally have "n < 2 ^ bitLength n"
      using b by simp
    with lo show ?thesis by simp
  qed
qed

lemma pow2_diff: "pow2 (a - b) = pow2 a / pow2 b"
  by (simp add: pow2_powi power_int_diff)

lemma binaryExponent_bounds:
  assumes "0 < q"
  shows "pow2 (binaryExponent q) \<le> q \<and> q < pow2 (binaryExponent q + 1)"
proof -
  obtain a b where ab: "quotient_of q = (a, b)"
    by (cases "quotient_of q")
  have b: "0 < b"
    using quotient_of_denom_pos [OF ab] .
  have q: "q = of_int a / of_int b"
    using quotient_of_div [OF ab] .
  have a: "0 < a"
    using assms b unfolding q by (simp add: zero_less_divide_iff)
  let ?e = "int (bitLength a) - int (bitLength b)"
  from bitLength_bounds [OF a] have a1: "2 ^ (bitLength a - 1) \<le> a" and a2: "a < 2 ^ bitLength a"
    by simp_all
  from bitLength_bounds [OF b] have b1: "2 ^ (bitLength b - 1) \<le> b" and b2: "b < 2 ^ bitLength b"
    by simp_all
  have la: "0 < bitLength a"
    using a by (subst bitLength.simps) simp
  have lb: "0 < bitLength b"
    using b by (subst bitLength.simps) simp
  have ra2: "(of_int a :: rat) < 2 ^ bitLength a"
    using a2 by (metis of_int_less_iff of_int_numeral of_int_power)
  have rb1: "(2 :: rat) ^ (bitLength b - 1) \<le> of_int b"
    using b1 by (metis of_int_le_iff of_int_numeral of_int_power)
  have ra1: "(2 :: rat) ^ (bitLength a - 1) \<le> of_int a"
    using a1 by (metis of_int_le_iff of_int_numeral of_int_power)
  have rb2: "(of_int b :: rat) < 2 ^ bitLength b"
    using b2 by (metis of_int_less_iff of_int_numeral of_int_power)
  have rb: "(0 :: rat) < of_int b"
    using b by simp
  have "q * 2 ^ (bitLength b - 1) \<le> q * of_int b"
    using rb1 assms by simp
  also have "\<dots> = of_int a"
    using rb unfolding q by simp
  also have "\<dots> < 2 ^ bitLength a"
    by (rule ra2)
  finally have "q < 2 ^ bitLength a / 2 ^ (bitLength b - 1)"
    by (simp add: pos_less_divide_eq)
  also have "\<dots> = pow2 (int (bitLength a)) / pow2 (int (bitLength b - 1))"
    by (simp only: pow2_nat)
  also have "\<dots> = pow2 (int (bitLength a) - int (bitLength b - 1))"
    by (simp only: pow2_diff)
  also have "int (bitLength a) - int (bitLength b - 1) = ?e + 1"
    using lb by simp
  finally have up: "q < pow2 (?e + 1)" .
  have "(2 :: rat) ^ (bitLength a - 1) \<le> of_int a"
    by (rule ra1)
  also have "\<dots> = q * of_int b"
    using rb unfolding q by simp
  also have "\<dots> < q * 2 ^ bitLength b"
    using rb2 assms by simp
  finally have "(2 :: rat) ^ (bitLength a - 1) / 2 ^ bitLength b < q"
    by (simp add: pos_divide_less_eq)
  then have "pow2 (int (bitLength a - 1)) / pow2 (int (bitLength b)) < q"
    by (simp only: pow2_nat)
  then have "pow2 (int (bitLength a - 1) - int (bitLength b)) < q"
    by (simp only: pow2_diff)
  moreover have "int (bitLength a - 1) - int (bitLength b) = ?e - 1"
    using la by simp
  ultimately have lo: "pow2 (?e - 1) < q"
    by (simp only:)
  show ?thesis
  proof (cases "pow2 ?e \<le> q")
    case True
    then have "binaryExponent q = ?e"
      by (simp add: binaryExponent_def ab)
    with True up show ?thesis by simp
  next
    case False
    then have "binaryExponent q = ?e - 1"
      by (simp add: binaryExponent_def ab)
    with False lo show ?thesis by simp
  qed
qed

lemma binaryExponent_unique:
  assumes "pow2 e \<le> q" and "q < pow2 (e + 1)"
  shows "binaryExponent q = e"
proof -
  have q: "0 < q"
    using assms(1) pow2_pos [of e] by linarith
  from binaryExponent_bounds [OF q]
  have lo: "pow2 (binaryExponent q) \<le> q" and up: "q < pow2 (binaryExponent q + 1)"
    by simp_all
  have "\<not> binaryExponent q < e"
  proof
    assume "binaryExponent q < e"
    then have "pow2 (binaryExponent q + 1) \<le> pow2 e"
      by (intro pow2_mono) simp
    with up assms(1) show False by linarith
  qed
  moreover have "\<not> e < binaryExponent q"
  proof
    assume "e < binaryExponent q"
    then have "pow2 (e + 1) \<le> pow2 (binaryExponent q)"
      by (intro pow2_mono) simp
    with lo assms(2) show False by linarith
  qed
  ultimately show ?thesis by linarith
qed

lemma roundHalfEven_of_int: "roundHalfEven (of_int n) = n"
  by (simp add: roundHalfEven_def)

lemma roundHalfEven_error: "\<bar>of_int (roundHalfEven q) - q\<bar> \<le> 1 / 2"
proof -
  have "of_int \<lfloor>q\<rfloor> \<le> q" "q < of_int \<lfloor>q\<rfloor> + 1"
    by linarith+
  then show ?thesis
    unfolding roundHalfEven_def Let_def by (simp add: abs_if) linarith
qed

lemma pow2_0: "pow2 0 = 1"
  by (simp add: pow2_def)

lemma pow2_neg: "e \<le> 0 \<Longrightarrow> 1 / pow2 e = 2 ^ nat (- e)"
  by (simp add: pow2_def)

lemma roundPositive_of_nat:
  assumes "0 < n" and "n \<le> 2 ^ 53"
  shows "roundPositive (of_nat n) = Finite (of_nat n)"
proof -
  let ?q = "of_nat n :: rat"
  let ?e0 = "binaryExponent ?q"
  have q: "0 < ?q" "1 \<le> ?q"
    using assms(1) by simp_all
  have q53: "?q \<le> 2 ^ 53"
    using assms(2) by (metis of_nat_le_iff of_nat_numeral of_nat_power)
  from binaryExponent_bounds [OF q(1)]
  have lo: "pow2 ?e0 \<le> ?q" and up: "?q < pow2 (?e0 + 1)"
    by simp_all
  have e0: "0 \<le> ?e0"
  proof (rule ccontr)
    assume "\<not> 0 \<le> ?e0"
    then have "pow2 (?e0 + 1) \<le> pow2 0"
      by (intro pow2_mono) simp
    with up q(2) show False by (simp add: pow2_0)
  qed
  have e53: "?e0 \<le> 53"
  proof (rule ccontr)
    assume "\<not> ?e0 \<le> 53"
    then have "pow2 54 \<le> pow2 ?e0"
      by (intro pow2_mono) simp
    with lo q53 show False by (simp add: pow2_def)
  qed
  have small: "?q < pow2 1024"
  proof -
    have "pow2 53 \<le> pow2 1024"
      by (intro pow2_mono) simp
    moreover have "pow2 53 = 2 ^ 53"
      by (simp add: pow2_def)
    moreover have "?q < 2 ^ 53 + 1"
      using q53 by linarith
    moreover have "pow2 53 < pow2 1024"
      by (simp add: pow2_def)
    ultimately show ?thesis
      using q53 by linarith
  qed
  have m: "max (?e0 - 52) (- 1074) = ?e0 - 52"
    using e0 by simp
  have "\<exists>k. ?q / pow2 (?e0 - 52) = of_int k"
  proof (cases "?e0 \<le> 52")
    case True
    then have "1 / pow2 (?e0 - 52) = 2 ^ nat (52 - ?e0)"
      using pow2_neg [of "?e0 - 52"] by simp
    then have "?q * (1 / pow2 (?e0 - 52)) = ?q * 2 ^ nat (52 - ?e0)"
      by (simp only:)
    then have "?q / pow2 (?e0 - 52) = ?q * 2 ^ nat (52 - ?e0)"
      by simp
    also have "\<dots> = of_int (int n * 2 ^ nat (52 - ?e0))"
      by simp
    finally show ?thesis by blast
  next
    case False
    with e53 have e: "?e0 = 53" by simp
    then have "2 ^ 53 \<le> ?q"
      using lo by (simp add: pow2_def)
    with q53 have "?q = 2 ^ 53" by simp
    then have "?q / pow2 (?e0 - 52) = of_int (2 ^ 52)"
      unfolding e by (simp add: pow2_def)
    then show ?thesis by blast
  qed
  then obtain k where k: "?q / pow2 (?e0 - 52) = of_int k"
    by blast
  have r: "of_int (roundHalfEven (?q / pow2 (?e0 - 52))) * pow2 (?e0 - 52) = ?q"
    unfolding k roundHalfEven_of_int
    using k pow2_pos [of "?e0 - 52"] by (simp add: field_simps)
  show ?thesis
    unfolding roundPositive_def Let_def m r using small by simp
qed

lemma numberValue_of_nat: "n \<le> 2 ^ 53 \<Longrightarrow> numberValue (of_nat n) = Finite (of_nat n)"
  by (cases "n = 0") (simp_all add: numberValue_def roundPositive_of_nat)

lemma abs_scale:
  fixes m p q :: rat
  assumes "0 < p"
  shows "\<bar>m * p - q\<bar> = \<bar>m - q / p\<bar> * p"
proof -
  have "\<bar>m - q / p\<bar> * p = \<bar>m - q / p\<bar> * \<bar>p\<bar>"
    using assms by simp
  also have "\<dots> = \<bar>(m - q / p) * p\<bar>"
    by (simp only: abs_mult)
  also have "(m - q / p) * p = m * p - q"
    using assms by (simp add: left_diff_distrib)
  finally show ?thesis by simp
qed

lemma roundPositive_error:
  assumes "pow2 (- 1022) \<le> q" and "q < pow2 1023"
  shows "\<exists>r. roundPositive q = Finite r \<and> \<bar>r - q\<bar> \<le> q * pow2 (- 53)"
proof -
  let ?b = "binaryExponent q"
  let ?s = "?b - 52"
  let ?r = "of_int (roundHalfEven (q / pow2 ?s)) * pow2 ?s"
  have q: "0 < q"
    using assms(1) pow2_pos [of "- 1022"] by linarith
  from binaryExponent_bounds [OF q]
  have lo: "pow2 ?b \<le> q" and up: "q < pow2 (?b + 1)"
    by simp_all
  have b: "- 1022 \<le> ?b"
  proof (rule ccontr)
    assume "\<not> - 1022 \<le> ?b"
    then have "pow2 (?b + 1) \<le> pow2 (- 1022)"
      by (intro pow2_mono) simp
    with up assms(1) show False by linarith
  qed
  have m: "max ?s (- 1074) = ?s"
    using b by simp
  have pe: "0 < pow2 ?s"
    by (rule pow2_pos)
  have "\<bar>?r - q\<bar> = \<bar>of_int (roundHalfEven (q / pow2 ?s)) - q / pow2 ?s\<bar> * pow2 ?s"
    using pe by (rule abs_scale)
  also have "\<dots> \<le> 1 / 2 * pow2 ?s"
    using roundHalfEven_error [of "q / pow2 ?s"] pe by (intro mult_right_mono) simp_all
  also have "1 / 2 * pow2 ?s = pow2 ?b * pow2 (- 53)"
  proof -
    have "pow2 ?s = pow2 ?b * pow2 (- 52)"
      using pow2_add [of ?b "- 52"] by simp
    moreover have "1 / 2 * pow2 (- 52) = pow2 (- 53)"
      by (simp add: pow2_def)
    ultimately show ?thesis by simp
  qed
  also have "\<dots> \<le> q * pow2 (- 53)"
    using lo pow2_pos [of "- 53"] by (intro mult_right_mono) simp_all
  finally have err: "\<bar>?r - q\<bar> \<le> q * pow2 (- 53)" .
  have "pow2 (- 53) \<le> pow2 0"
    by (intro pow2_mono) simp
  then have "q * pow2 (- 53) \<le> q * 1"
    using q by (intro mult_left_mono) (simp_all add: pow2_0)
  with err have "?r \<le> 2 * q"
    by (simp add: abs_if split: if_splits)
  also have "\<dots> < 2 * pow2 1023"
    using assms(2) by simp
  also have "\<dots> = pow2 1024"
    using pow2_add [of 1 1023] by (simp add: pow2_def)
  finally have "roundPositive q = Finite ?r"
    unfolding roundPositive_def Let_def m by simp
  with err show ?thesis by blast
qed

lemma numberValue_quotient:
  fixes a b :: nat
  assumes "0 < b" and "a < 2 ^ 53" and "b < 2 ^ 53"
  shows "\<exists>r. numberValue (of_nat a / of_nat b) = Finite r
           \<and> \<lfloor>r\<rfloor> = int (a div b) \<and> \<lceil>r\<rceil> = int ((a + b - 1) div b)"
proof (cases "b dvd a")
  case True
  then obtain k where k: "a = b * k"
    by (auto simp: dvd_def)
  have "k \<le> a"
    using k assms(1) by simp
  then have k53: "k \<le> 2 ^ 53"
    using assms(2) by simp
  have "(of_nat a :: rat) / of_nat b = of_nat k"
    using assms(1) k by simp
  then have "numberValue (of_nat a / of_nat b) = Finite (of_nat k)"
    using numberValue_of_nat [OF k53] by simp
  moreover have "a div b = k"
    using k assms(1) by simp
  moreover have "(a + b - 1) div b = k"
  proof -
    have "a + b - 1 = b - 1 + k * b"
      using k assms(1) by (simp add: mult.commute)
    then have "(a + b - 1) div b = (b - 1 + k * b) div b"
      by simp
    also have "\<dots> = (b - 1) div b + k"
      using assms(1) by (subst div_mult_self1) simp_all
    finally show ?thesis
      using assms(1) by simp
  qed
  ultimately show ?thesis by simp
next
  case False
  let ?q = "(of_nat a :: rat) / of_nat b"
  let ?k = "a div b"
  let ?m = "a mod b"
  have a: "0 < a"
    using False by (cases a) simp_all
  have m: "1 \<le> ?m" "?m < b"
    using False assms(1) by (simp_all add: dvd_eq_mod_eq_0 Suc_leI)
  have rb: "(0 :: rat) < of_nat b"
    using assms(1) by simp
  have q: "0 < ?q"
    using a rb by simp
  have a53: "(of_nat a :: rat) < 2 ^ 53"
    using assms(2) by (metis of_nat_less_iff of_nat_numeral of_nat_power)
  have b53: "(of_nat b :: rat) < 2 ^ 53"
    using assms(3) by (metis of_nat_less_iff of_nat_numeral of_nat_power)
  have split: "(of_nat a :: rat) = of_nat ?k * of_nat b + of_nat ?m"
    by (metis div_mult_mod_eq of_nat_add of_nat_mult)
  have qk: "?q = of_nat ?k + of_nat ?m / of_nat b"
    using rb by (subst split) (simp add: add_divide_distrib)
  have lo: "of_nat ?k + 1 / of_nat b \<le> ?q"
  proof -
    have "(1 :: rat) \<le> of_nat ?m"
      using m(1) by simp
    then have "1 / of_nat b \<le> (of_nat ?m :: rat) / of_nat b"
      using rb by (simp add: divide_right_mono)
    then show ?thesis
      unfolding qk by simp
  qed
  have up: "?q \<le> of_nat ?k + 1 - 1 / of_nat b"
  proof -
    have "?m + 1 \<le> b"
      using m(2) by simp
    then have "(of_nat ?m :: rat) + 1 \<le> of_nat b"
      by (metis of_nat_1 of_nat_add of_nat_le_iff)
    then have "(of_nat ?m :: rat) \<le> of_nat b - 1"
      by simp
    then have "(of_nat ?m :: rat) / of_nat b \<le> (of_nat b - 1) / of_nat b"
      using rb by (simp add: divide_right_mono)
    also have "\<dots> = 1 - 1 / of_nat b"
      using rb by (simp add: diff_divide_distrib)
    finally show ?thesis
      unfolding qk by simp
  qed
  have err: "?q * pow2 (- 53) < 1 / of_nat b"
  proof -
    have "?q * pow2 (- 53) = (of_nat a / 2 ^ 53) / of_nat b"
      by (simp add: pow2_def)
    also have "\<dots> < 1 / of_nat b"
      using a53 rb by (intro divide_strict_right_mono) simp_all
    finally show ?thesis .
  qed
  have n1: "pow2 (- 1022) \<le> ?q"
  proof -
    have "pow2 (- 1022) \<le> pow2 (- 53)"
      by (intro pow2_mono) simp
    also have "\<dots> = 1 / 2 ^ 53"
      by (simp add: pow2_def)
    also have "\<dots> \<le> 1 / of_nat b"
      using b53 rb by (intro divide_left_mono) simp_all
    also have "\<dots> \<le> ?q"
    proof -
      have "(0 :: rat) \<le> of_nat ?k" by simp
      with lo show ?thesis by linarith
    qed
    finally show ?thesis .
  qed
  have n2: "?q < pow2 1023"
  proof -
    have "?q \<le> of_nat a"
      using rb assms(1) by (simp add: pos_divide_le_eq mult_le_cancel_left1)
    also have "\<dots> < 2 ^ 53"
      by (rule a53)
    also have "\<dots> = pow2 53"
      by (simp add: pow2_def)
    also have "\<dots> \<le> pow2 1023"
      by (intro pow2_mono) simp
    finally show ?thesis .
  qed
  from roundPositive_error [OF n1 n2] obtain r where
    r: "roundPositive ?q = Finite r" and e: "\<bar>r - ?q\<bar> \<le> ?q * pow2 (- 53)"
    by blast
  have r1: "of_nat ?k < r"
    using e err lo by (simp add: abs_if split: if_splits)
  have r2: "r < of_nat ?k + 1"
    using e err up by (simp add: abs_if split: if_splits)
  have fl: "\<lfloor>r\<rfloor> = int ?k"
    using r1 r2 by (intro floor_unique) simp_all
  have ce: "\<lceil>r\<rceil> = int ?k + 1"
    using r1 r2 by (intro ceiling_unique) simp_all
  have "a + b - 1 = ?m - 1 + (?k + 1) * b"
  proof -
    have "a = ?k * b + ?m" by simp
    then show ?thesis using m(1) a by (simp add: algebra_simps)
  qed
  then have "(a + b - 1) div b = (?m - 1 + (?k + 1) * b) div b"
    by simp
  also have "\<dots> = (?m - 1) div b + (?k + 1)"
    using assms(1) by (subst div_mult_self1) simp_all
  also have "(?m - 1) div b = 0"
    using m(2) by simp
  finally have "int ((a + b - 1) div b) = int ?k + 1"
    by simp
  moreover have "numberValue ?q = Finite r"
    using r a assms(1) by (simp add: numberValue_def)
  ultimately show ?thesis
    using fl ce by simp
qed

lemma numberValue_not_NaN: "numberValue q \<noteq> NaN"
  by (simp add: numberValue_def roundPositive_def js_negate_def Let_def)

lemma numberValue_minus: "numberValue (- q) = js_negate (numberValue q)"
  by (simp add: numberValue_def js_negate_def roundPositive_def Let_def)

lemma numberValue_small: "n \<le> 9007199254740992 \<Longrightarrow> numberValue (of_nat n) = Finite (of_nat n)"
  using numberValue_of_nat [of n] by simp

lemma js_add_nat:
  assumes "a + b \<le> 2 ^ 53"
  shows "js_add (Finite (of_nat a)) (Finite (of_nat b)) = Finite (of_nat (a + b))"
proof -
  have "numberValue (of_nat a + of_nat b) = Finite (of_nat a + of_nat b)"
    using numberValue_of_nat [OF assms] by simp
  then show ?thesis
    by (simp add: js_add_def)
qed

lemma js_div_nat:
  fixes a b :: nat
  assumes "0 < b" and "a < 2 ^ 53" and "b < 2 ^ 53"
  shows "Math_floor (js_div (Finite (of_nat a)) (Finite (of_nat b))) = Finite (of_nat (a div b))"
    and "Math_ceil (js_div (Finite (of_nat a)) (Finite (of_nat b))) = Finite (of_nat ((a + b - 1) div b))"
proof -
  from numberValue_quotient [OF assms] obtain r where
    r: "numberValue (of_nat a / of_nat b) = Finite r" and fl: "\<lfloor>r\<rfloor> = int (a div b)"
    and ce: "\<lceil>r\<rceil> = int ((a + b - 1) div b)"
    by blast
  have d: "js_div (Finite (of_nat a)) (Finite (of_nat b)) = Finite r"
    using assms(1) r by (simp add: js_div_def)
  show "Math_floor (js_div (Finite (of_nat a)) (Finite (of_nat b))) = Finite (of_nat (a div b))"
    unfolding d by (simp add: Math_floor_def fl)
  show "Math_ceil (js_div (Finite (of_nat a)) (Finite (of_nat b))) = Finite (of_nat ((a + b - 1) div b))"
    unfolding d by (simp add: Math_ceil_def ce)
qed

section \<open>Digits, \<open>parseInt\<close> and the page arithmetic\<close>

lemma of_char_digitChar: "d < 10 \<Longrightarrow> of_char (digitChar d) = 48 + d"
  by (simp add: digitChar_def)

lemma digitValue_digitChar: "d < 10 \<Longrightarrow> digitValue (digitChar d) = d"
  by (simp add: digitValue_def of_char_digitChar Let_def)

lemma isDigit_digitChar: "d < 10 \<Longrightarrow> isDigit (digitChar d)"
  by (simp add: isDigit_def of_char_digitChar)

lemma natToString_digits: "list_all isDigit (natToString n)"
proof (induction n rule: natToString.induct)
  case (1 n)
  show ?case
  proof (cases "n < 10")
    case True
    then show ?thesis
      by (subst natToString.simps) (simp add: isDigit_digitChar)
  next
    case False
    with "1" show ?thesis
      by (subst natToString.simps) (simp add: isDigit_digitChar)
  qed
qed

lemma natToString_nonempty: "natToString n \<noteq> []"
  by (subst natToString.simps) simp

lemma digitsValue_snoc: "digitsValue r (ds @ [c]) = digitsValue r ds * r + digitValue c"
  by (simp add: digitsValue_def)

lemma digitsValue_natToString: "digitsValue 10 (natToString n) = n"
proof (induction n rule: natToString.induct)
  case (1 n)
  show ?case
  proof (cases "n < 10")
    case True
    then show ?thesis
      by (subst natToString.simps) (simp add: digitsValue_def digitValue_digitChar)
  next
    case False
    with "1" show ?thesis
      by (subst natToString.simps) (simp add: digitsValue_snoc digitValue_digitChar)
  qed
qed

lemma natToString_inj: "natToString m = natToString n \<Longrightarrow> m = n"
  by (metis digitsValue_natToString)

lemma isDigit_not_space: "isDigit c \<Longrightarrow> \<not> isWhiteSpace c"
  by (auto simp: isDigit_def isWhiteSpace_def)

lemma isDigit_radix10: "isRadixDigit 10 c = isDigit c"
  by (auto simp: isDigit_def isRadixDigit_def digitValue_def Let_def)

lemma isDigit_chars: "isDigit c \<Longrightarrow> c \<noteq> CHR ''+'' \<and> c \<noteq> CHR ''-'' \<and> c \<noteq> CHR ''x'' \<and> c \<noteq> CHR ''X''"
  by (auto simp: isDigit_def)

lemma digits_no_hex_prefix:
  assumes "list_all isDigit s"
  shows "\<not> startsWith s ''0x'' \<and> \<not> startsWith s ''0X''"
proof (cases s)
  case Nil
  then show ?thesis by (simp add: startsWith_def)
next
  case (Cons a t)
  show ?thesis
  proof (cases t)
    case Nil
    with Cons show ?thesis by (simp add: startsWith_def)
  next
    case (Cons b u)
    with \<open>s = a # t\<close> assms have "isDigit b" by simp
    then show ?thesis
      using Cons \<open>s = a # t\<close> isDigit_chars [of b] by (auto simp: startsWith_def)
  qed
qed

lemma takeWhile_all: "list_all P s \<Longrightarrow> takeWhile P s = s"
  by (induction s) auto

lemma parseInt_digits:
  assumes "s \<noteq> []" and "list_all isDigit s"
  shows "parseInt s = numberValue (of_nat (digitsValue 10 s))"
proof -
  have c: "isDigit (hd s)"
    using assms by (cases s) auto
  have trim: "trimStart s = s"
    using c assms(1) by (cases s) (simp_all add: trimStart_def isDigit_not_space)
  have tw: "takeWhile (isRadixDigit 10) s = s"
    using assms(2) by (simp add: isDigit_radix10 [abs_def] takeWhile_all)
  have sign: "hd s \<noteq> CHR ''+''" "hd s \<noteq> CHR ''-''"
    using isDigit_chars [OF c] by simp_all
  have hex: "\<not> (startsWith s ''0x'' \<or> startsWith s ''0X'')"
    using digits_no_hex_prefix [OF assms(2)] by simp
  show ?thesis
    unfolding parseInt_def Let_def trim
    by (simp only: sign hex tw assms(1) simp_thms if_False if_True)
qed

lemma parseInt_minus_digits:
  assumes "s \<noteq> []" and "list_all isDigit s"
  shows "parseInt (CHR ''-'' # s) = js_negate (numberValue (of_nat (digitsValue 10 s)))"
proof -
  have tw: "takeWhile (isRadixDigit 10) s = s"
    using assms(2) by (simp add: isDigit_radix10 [abs_def] takeWhile_all)
  have "\<not> isWhiteSpace CHR ''-''"
    by (simp add: isWhiteSpace_def)
  then have trim: "trimStart (CHR ''-'' # s) = CHR ''-'' # s"
    by (simp add: trimStart_def)
  have hex: "\<not> (startsWith s ''0x'' \<or> startsWith s ''0X'')"
    using digits_no_hex_prefix [OF assms(2)] by simp
  show ?thesis
    unfolding parseInt_def Let_def trim
    by (simp only: list.sel hex tw assms(1) simp_thms if_False if_True list.distinct not_False_eq_True)
qed

lemma parseInt_natToString: "parseInt (natToString n) = numberValue (of_nat n)"
  by (simp add: parseInt_digits natToString_nonempty natToString_digits digitsValue_natToString)

lemma parseInt_no_number:
  assumes "s \<noteq> []" and "\<not> isWhiteSpace (hd s)" and "hd s \<noteq> CHR ''+''" and "hd s \<noteq> CHR ''-''"
    and "\<not> isDigit (hd s)"
  shows "parseInt s = NaN"
proof -
  obtain c t where s: "s = c # t"
    using assms(1) by (cases s) auto
  have trim: "trimStart s = s"
    using assms(2) s by (simp add: trimStart_def)
  have hex: "\<not> (startsWith s ''0x'' \<or> startsWith s ''0X'')"
    using assms(5) s by (cases t) (auto simp: startsWith_def isDigit_def)
  have tw: "takeWhile (isRadixDigit 10) s = []"
    using assms(5) s by (simp add: isDigit_radix10)
  show ?thesis
    unfolding parseInt_def Let_def trim
    by (simp only: assms hex tw simp_thms if_False if_True)
qed

subsection \<open>The page arithmetic below \<open>2^53\<close>\<close>

lemma envelope_build:
  assumes "limit < 2 ^ 53" and "skip + length rows < 2 ^ 53" and "count < 2 ^ 53"
  shows "envelope (Finite (of_nat skip)) (Finite (of_nat limit)) rows count = build rows count skip limit"
proof -
  have skip: "skip < 2 ^ 53"
    using assms(2) by simp
  have from_row: "js_add (Finite (of_nat skip)) (Finite 1) = Finite (of_nat (skip + 1))"
    using js_add_nat [of skip 1] skip by simp
  have to_row: "js_add (Finite (of_nat skip)) (Finite (of_nat (length rows))) = Finite (of_nat (skip + length rows))"
    using js_add_nat [of skip "length rows"] assms(2) by simp
  show ?thesis
  proof (cases "0 < limit")
    case True
    have fl: "Math_floor (js_div (Finite (of_nat skip)) (Finite (of_nat limit))) = Finite (of_nat (skip div limit))"
      using js_div_nat(1) [OF True skip assms(1)] .
    have ce: "Math_ceil (js_div (Finite (of_nat count)) (Finite (of_nat limit))) = Finite (of_nat ((count + limit - 1) div limit))"
      using js_div_nat(2) [OF True assms(3) assms(1)] .
    have "skip div limit \<le> skip"
      by simp
    then have "skip div limit + 1 \<le> 2 ^ 53"
      using skip by linarith
    then have page: "js_add (Finite (of_nat (skip div limit))) (Finite 1) = Finite (of_nat (skip div limit + 1))"
      using js_add_nat [of "skip div limit" 1] by simp
    show ?thesis
      using True by (simp add: envelope_def build_def Let_def fl ce js_gt_def from_row to_row page)
  next
    case False
    then show ?thesis
      by (simp add: envelope_def build_def Let_def js_gt_def from_row to_row)
  qed
qed

lemma numberValue_above_2_53: "numberValue 9007199254740993 = Finite 9007199254740992"
proof -
  have "binaryExponent 9007199254740993 = 53"
    by (rule binaryExponent_unique) (simp_all add: pow2_def)
  moreover have "\<lfloor>(9007199254740993 :: rat) / 2\<rfloor> = 4503599627370496"
    by (rule floor_unique) simp_all
  ultimately show ?thesis
    by (simp add: numberValue_def roundPositive_def roundHalfEven_def pow2_def Let_def)
qed

lemma parseInt_2_53: "parseInt ''9007199254740992'' = Finite 9007199254740992"
  using numberValue_small [of 9007199254740992]
  by (simp add: parseInt_def trimStart_def isWhiteSpace_def startsWith_def isRadixDigit_def
      digitValue_def digitsValue_def)

lemma numberValue_10: "numberValue 10 = Finite 10"
  using numberValue_small [of 10] by simp

lemma numberValue_5: "numberValue 5 = Finite 5"
  using numberValue_small [of 5] by simp

lemma parseInt_10: "parseInt ''10'' = Finite 10"
  by (simp add: parseInt_def trimStart_def isWhiteSpace_def startsWith_def isRadixDigit_def
      digitValue_def digitsValue_def numberValue_10)

lemma natToString_0: "natToString 0 = ''0''"
  by code_simp

section \<open>Expansions\<close>

lemma applyExpand_lists [simp]:
  "allowedExpandsList (applyExpand e this) = allowedExpandsList this"
  by (simp add: applyExpand_def leftJoinAndSelect_def Let_def)

lemma applyExpand_calls:
  "leftJoinAndSelect_calls (queryBuilder (applyExpand e this)) =
     leftJoinAndSelect_calls (queryBuilder this) @
     (if allowedExpandsList this = [] \<or> trim e \<in> set (allowedExpandsList this)
      then [(''entity.'' @ trim e, trim e)] else [])"
  by (simp add: applyExpand_def leftJoinAndSelect_def Let_def)

lemma applyExpands_foldl:
  "leftJoinAndSelect_calls (queryBuilder (foldl (\<lambda>this' e. applyExpand e this') this es)) =
     leftJoinAndSelect_calls (queryBuilder this) @
     map (\<lambda>r. (''entity.'' @ r, r))
       (filter (\<lambda>r. allowedExpandsList this = [] \<or> r \<in> set (allowedExpandsList this)) (map trim es))
   \<and> allowedExpandsList (foldl (\<lambda>this' e. applyExpand e this') this es) = allowedExpandsList this"
proof (induction es arbitrary: this)
  case Nil
  show ?case by simp
next
  case (Cons e es)
  show ?case
    using Cons.IH [of "applyExpand e this"] by (simp add: applyExpand_calls)
qed

lemma split_profile: "split ''profile, profile'' '','' = [''profile'', '' profile'']"
  by code_simp

lemma trim_profile: "trim '' profile'' = ''profile''" "trim ''profile'' = ''profile''"
  by code_simp+

text \<open>
  C7, as the code has it. Every entry of the split of \<open>$expand\<close> whose trimmed name passes
  the allow-list is applied as one \<open>leftJoinAndSelect\<close>, in order: a relation named \<open>k\<close>
  times is joined \<open>k\<close> times, nothing removes the duplicates.
\<close>

theorem applyExpands_every_occurrence:
  assumes "q_expand (request this) = Some expand" and "expand \<noteq> []"
  shows "leftJoinAndSelect_calls (queryBuilder (applyExpands this)) =
     leftJoinAndSelect_calls (queryBuilder this) @
     map (\<lambda>relation. (''entity.'' @ relation, relation))
       (filter (\<lambda>relation. allowedExpandsList this = [] \<or> relation \<in> set (allowedExpandsList this))
          (map trim (split expand '','')))"
  using assms by (simp add: applyExpands_def applyExpands_foldl)

theorem applyExpands_every_occurrence_witness:
  "leftJoinAndSelect_calls (queryBuilder (applyExpands (allowedExpands [''profile''] (ODataBuilder_for
      \<lparr>q_filter = None, q_orderby = None, q_expand = Some ''profile, profile'',
       q_top = None, q_skip = None\<rparr>)))) =
   [(''entity.profile'', ''profile''), (''entity.profile'', ''profile'')]"
  using applyExpands_every_occurrence [of "allowedExpands [''profile''] (ODataBuilder_for
      \<lparr>q_filter = None, q_orderby = None, q_expand = Some ''profile, profile'',
       q_top = None, q_skip = None\<rparr>)" "''profile, profile''"]
  by (simp add: ODataBuilder_for_def allowedExpands_def createQueryBuilder_def split_profile trim_profile)

text \<open>
  C7 as the specification states it fails: \<open>$expand = "profile, profile"\<close> joins \<open>profile\<close>
  twice.
\<close>

theorem applyExpands_duplicate_counterexample:
  "leftJoinAndSelect_calls (queryBuilder (applyExpands (ODataBuilder_for
      \<lparr>q_filter = None, q_orderby = None, q_expand = Some ''profile, profile'',
       q_top = None, q_skip = None\<rparr>))) =
   [(''entity.profile'', ''profile''), (''entity.profile'', ''profile'')]"
  by (simp add: applyExpands_def applyExpand_def leftJoinAndSelect_def ODataBuilder_for_def
      createQueryBuilder_def split_profile trim_profile Let_def)

section \<open>Pagination\<close>

lemma parseInt_minus_5: "parseInt ''-5'' = Finite (- 5)"
  by (simp add: parseInt_def trimStart_def isWhiteSpace_def startsWith_def isRadixDigit_def
      digitValue_def digitsValue_def numberValue_5 js_negate_def)

lemma parseInt_abc: "parseInt ''abc'' = NaN"
  by (simp add: parseInt_def trimStart_def isWhiteSpace_def startsWith_def isRadixDigit_def
      digitValue_def digitsValue_def)

text \<open>
  C8, as the code has it. A \<open>$top\<close> or \<open>$skip\<close> that is absent or the empty string is not
  forwarded. Every other value is forwarded as \<open>parseInt\<close> of it, unchecked: a minus sign
  and digits go to the query builder as that negative number (as the Number nearest to it
  when it is beyond \<open>2^53\<close>), a value that starts with neither white space, a sign nor a
  digit goes as \<open>NaN\<close>. Nothing throws. In the response a limit that is not above 0 counts
  as no limit: one page that holds everything.
\<close>

theorem applyPagination_forwards_parseInt:
  "take_calls (queryBuilder (applyPagination this)) =
     take_calls (queryBuilder this) @
     (case q_top (request this) of None \<Rightarrow> [] | Some t \<Rightarrow> if t = [] then [] else [parseInt t])
   \<and> skip_calls (queryBuilder (applyPagination this)) =
     skip_calls (queryBuilder this) @
     (case q_skip (request this) of None \<Rightarrow> [] | Some s \<Rightarrow> if s = [] then [] else [parseInt s])
   \<and> (ds \<noteq> [] \<and> list_all isDigit ds \<longrightarrow>
        parseInt (CHR ''-'' # ds) = js_negate (numberValue (of_nat (digitsValue 10 ds))) \<and>
        (digitsValue 10 ds \<le> 2 ^ 53 \<longrightarrow>
           parseInt (CHR ''-'' # ds) = Finite (- of_nat (digitsValue 10 ds))))
   \<and> (u \<noteq> [] \<and> \<not> isWhiteSpace (hd u) \<and> hd u \<noteq> CHR ''+'' \<and> hd u \<noteq> CHR ''-'' \<and> \<not> isDigit (hd u) \<longrightarrow>
        parseInt u = NaN)
   \<and> (\<not> js_gt limit (Finite 0) \<longrightarrow>
        per_page (envelope skip limit rows count) = Finite (of_nat count) \<and>
        current_page (envelope skip limit rows count) = Finite 1 \<and>
        last_page (envelope skip limit rows count) = Finite 1)"
proof (intro conjI impI)
  show "take_calls (queryBuilder (applyPagination this)) =
     take_calls (queryBuilder this) @
     (case q_top (request this) of None \<Rightarrow> [] | Some t \<Rightarrow> if t = [] then [] else [parseInt t])"
    by (simp add: applyPagination_def take_qb_def skip_qb_def Let_def split: option.splits)
  show "skip_calls (queryBuilder (applyPagination this)) =
     skip_calls (queryBuilder this) @
     (case q_skip (request this) of None \<Rightarrow> [] | Some s \<Rightarrow> if s = [] then [] else [parseInt s])"
    by (simp add: applyPagination_def take_qb_def skip_qb_def Let_def split: option.splits)
next
  assume ds: "ds \<noteq> [] \<and> list_all isDigit ds"
  then show "parseInt (CHR ''-'' # ds) = js_negate (numberValue (of_nat (digitsValue 10 ds)))"
    by (simp add: parseInt_minus_digits)
  assume "digitsValue 10 ds \<le> 2 ^ 53"
  with ds show "parseInt (CHR ''-'' # ds) = Finite (- of_nat (digitsValue 10 ds))"
    by (simp add: parseInt_minus_digits numberValue_of_nat js_negate_def)
next
  assume "u \<noteq> [] \<and> \<not> isWhiteSpace (hd u) \<and> hd u \<noteq> CHR ''+'' \<and> hd u \<noteq> CHR ''-'' \<and> \<not> isDigit (hd u)"
  then show "parseInt u = NaN"
    by (simp add: parseInt_no_number)
next
  assume "\<not> js_gt limit (Finite 0)"
  then show "per_page (envelope skip limit rows count) = Finite (of_nat count)"
    and "current_page (envelope skip limit rows count) = Finite 1"
    and "last_page (envelope skip limit rows count) = Finite 1"
    by (simp_all add: envelope_def Let_def)
qed

theorem applyPagination_forwards_parseInt_witness:
  "take_calls (queryBuilder (applyPagination (ODataBuilder_for
      \<lparr>q_filter = None, q_orderby = None, q_expand = None,
       q_top = Some ''-5'', q_skip = Some ''abc''\<rparr>))) = [parseInt ''-5'']
   \<and> skip_calls (queryBuilder (applyPagination (ODataBuilder_for
      \<lparr>q_filter = None, q_orderby = None, q_expand = None,
       q_top = Some ''-5'', q_skip = Some ''abc''\<rparr>))) = [parseInt ''abc'']
   \<and> parseInt ''-5'' = Finite (- 5)
   \<and> parseInt ''abc'' = NaN
   \<and> per_page (envelope NaN (Finite (- 5)) [''row''] 15) = Finite 15
   \<and> current_page (envelope NaN (Finite (- 5)) [''row''] 15) = Finite 1
   \<and> last_page (envelope NaN (Finite (- 5)) [''row''] 15) = Finite 1"
  using applyPagination_forwards_parseInt
    [of "ODataBuilder_for \<lparr>q_filter = None, q_orderby = None, q_expand = None,
           q_top = Some ''-5'', q_skip = Some ''abc''\<rparr>" "''5''" "''abc''" "Finite (- 5)" NaN "[''row'']" 15]
  by (simp add: ODataBuilder_for_def createQueryBuilder_def isDigit_def isWhiteSpace_def
      digitsValue_def digitValue_def js_gt_def numberValue_5 js_negate_def)

text \<open>
  C8 as the specification states it fails: \<open>$top = "-5"\<close> reaches the query builder as the
  limit \<open>-5\<close>, and \<open>$skip = "abc"\<close> as the offset \<open>NaN\<close>.
\<close>

theorem applyPagination_safe_parse_counterexample:
  "take_calls (queryBuilder (applyPagination (ODataBuilder_for
      \<lparr>q_filter = None, q_orderby = None, q_expand = None,
       q_top = Some ''-5'', q_skip = Some ''abc''\<rparr>))) = [Finite (- 5)]
   \<and> skip_calls (queryBuilder (applyPagination (ODataBuilder_for
      \<lparr>q_filter = None, q_orderby = None, q_expand = None,
       q_top = Some ''-5'', q_skip = Some ''abc''\<rparr>))) = [NaN]"
  by (simp add: applyPagination_def take_qb_def skip_qb_def ODataBuilder_for_def
      createQueryBuilder_def parseInt_minus_5 parseInt_abc)

section \<open>Sorts\<close>







lemma split_name: "split ''name'' '','' = [''name'']" "split (trim ''name'') '' '' = [''name'']"
  by code_simp+



text \<open>
  C2, at the input where the code fails it: the entry \<open>name\<close> has no direction, \<open>dir\<close> is
  \<open>undefined\<close> and \<open>dir.toUpperCase()\<close> throws, so \<open>applySorts\<close> and with it \<open>execute\<close> end
  in a \<open>TypeError\<close>.
\<close>

theorem applySorts_missing_direction_throws:
  "applySorts (ODataBuilder_for \<lparr>q_filter = None, q_orderby = Some ''name'', q_expand = None,
       q_top = None, q_skip = None\<rparr>) = Inl TypeError
   \<and> execute (\<lambda>qb. ([''row''], 1)) (ODataBuilder_for \<lparr>q_filter = None,
       q_orderby = Some ''name'', q_expand = None, q_top = None, q_skip = None\<rparr>) = Inl TypeError"
  by (simp add: execute_def applyFilters_def applySorts_def applySort_def ODataBuilder_for_def split_name)

section \<open>Value coercion\<close>

lemma trim_id:
  assumes "s \<noteq> []" and "\<not> isWhiteSpace (hd s)" and "\<not> isWhiteSpace (last s)"
  shows "trim s = s"
proof -
  have "dropWhile isWhiteSpace s = s"
    using assms(1,2) by (cases s) auto
  moreover have "dropWhile isWhiteSpace (rev s) = rev s"
    using assms(1,3) by (cases "rev s") (auto simp: last_rev [symmetric] hd_rev)
  ultimately show ?thesis
    by (simp add: trim_def)
qed

lemma takeWhile_dropWhile_digits_last:
  assumes "specUnsigned u"
  shows "u \<noteq> [] \<and> isDigit (hd u) \<and> isDigit (last u)"
proof -
  let ?ip = "takeWhile isDigit u" and ?r = "dropWhile isDigit u"
  have u: "u = ?ip @ ?r" by simp
  have ip: "?ip \<noteq> []" using assms by (simp add: specUnsigned_def Let_def)
  then have ne: "u \<noteq> []" by auto
  have hd: "isDigit (hd u)"
    using ip by (cases u) (auto split: if_splits)
  have "isDigit (last u)"
  proof (cases "?r = []")
    case True
    then have "u = ?ip" by (metis u append_Nil2)
    then have "list_all isDigit u"
      by (metis list_all_iff set_takeWhileD)
    then show ?thesis using ne by (simp add: list_all_iff)
  next
    case False
    then have r: "tl ?r \<noteq> []" "list_all isDigit (tl ?r)"
      using assms by (auto simp: specUnsigned_def Let_def)
    have "last u = last ?r"
      using False by (metis u last_appendR)
    also have "\<dots> = last (tl ?r)"
      using r(1) False by (metis last_tl)
    finally show ?thesis
      using r by (simp add: list_all_iff)
  qed
  with ne hd show ?thesis by simp
qed

lemma isDigit_not_letter:
  "isDigit c \<Longrightarrow> c \<noteq> CHR ''I'' \<and> c \<noteq> CHR ''o'' \<and> c \<noteq> CHR ''O'' \<and> c \<noteq> CHR ''b'' \<and> c \<noteq> CHR ''B''
     \<and> c \<noteq> CHR ''t'' \<and> c \<noteq> CHR ''f'' \<and> c \<noteq> CHR ''n'' \<and> c \<noteq> CHR 0x22 \<and> c \<noteq> CHR 0x27 \<and> c \<noteq> CHR ''.''"
  by (auto simp: isDigit_def)

lemma dropWhile_all: "list_all P s \<Longrightarrow> dropWhile P s = []"
  by (induction s) auto

lemma specUnsigned_literal:
  assumes "specUnsigned u"
  shows "StrUnsignedDecimalLiteral u \<noteq> NaN"
proof -
  let ?ip = "takeWhile isDigit u" and ?r = "dropWhile isDigit u"
  have ip: "?ip \<noteq> []" using assms by (simp add: specUnsigned_def Let_def)
  have "isDigit (hd u)" "u \<noteq> []"
    using takeWhile_dropWhile_digits_last [OF assms] by simp_all
  then have inf: "u \<noteq> ''Infinity''"
    using isDigit_not_letter [of "hd u"] by auto
  show ?thesis
  proof (cases "?r = []")
    case True
    show ?thesis
      unfolding StrUnsignedDecimalLiteral_def Let_def True
      using ip inf by (simp add: exponentPart_def numberValue_not_NaN)
  next
    case False
    then have "hd ?r = CHR ''.''" "list_all isDigit (tl ?r)"
      using assms by (auto simp: specUnsigned_def Let_def)
    then obtain ds where r: "?r = CHR ''.'' # ds" and ds: "list_all isDigit ds"
      using False by (cases ?r) auto
    show ?thesis
      unfolding StrUnsignedDecimalLiteral_def Let_def r
      using ip inf ds by (simp add: exponentPart_def dropWhile_all numberValue_not_NaN)
  qed
qed

lemma specUnsigned_prefix:
  assumes "specUnsigned u"
  shows "\<not> startsWith u [CHR ''0'', c] \<or> isDigit c \<or> c = CHR ''.''"
proof (cases u)
  case Nil
  then show ?thesis by (simp add: startsWith_def)
next
  case (Cons a t)
  note u = Cons
  show ?thesis
  proof (cases t)
    case Nil
    with u show ?thesis by (simp add: startsWith_def)
  next
    case (Cons b t')
    show ?thesis
    proof (cases "a = CHR ''0'' \<and> b = c \<and> \<not> isDigit c")
      case True
      have "isDigit CHR ''0''" by (simp add: isDigit_def)
      then have "dropWhile isDigit u = c # t'"
        using True u Cons by simp
      then show ?thesis
        using assms by (auto simp: specUnsigned_def Let_def)
    next
      case False
      then show ?thesis
        using u Cons by (auto simp: startsWith_def)
    qed
  qed
qed

lemma specNumeric_Number:
  assumes "specNumeric v"
  shows "Number v \<noteq> NaN"
proof (cases "v \<noteq> [] \<and> hd v = CHR ''-''")
  case True
  then obtain u where v: "v = CHR ''-'' # u"
    by (cases v) auto
  with assms have u: "specUnsigned u"
    by (simp add: specNumeric_def)
  have ends: "u \<noteq> []" "isDigit (last u)"
    using takeWhile_dropWhile_digits_last [OF u] by simp_all
  have "\<not> isWhiteSpace CHR ''-''"
    by (simp add: isWhiteSpace_def)
  then have trim: "trim v = v"
    using ends v by (intro trim_id) (simp_all add: isDigit_not_space)
  have "StrUnsignedDecimalLiteral u \<noteq> NaN"
    using specUnsigned_literal [OF u] .
  then show ?thesis
    unfolding Number_def Let_def trim
    by (simp add: v startsWith_def js_negate_def split: jsnumber.splits)
next
  case False
  with assms have u: "specUnsigned v"
    by (auto simp: specNumeric_def)
  have ends: "v \<noteq> []" "isDigit (hd v)" "isDigit (last v)"
    using takeWhile_dropWhile_digits_last [OF u] by simp_all
  have trim: "trim v = v"
    using ends by (intro trim_id) (simp_all add: isDigit_not_space)
  have pre: "\<not> startsWith v ''0x''" "\<not> startsWith v ''0X''" "\<not> startsWith v ''0o''"
    "\<not> startsWith v ''0O''" "\<not> startsWith v ''0b''" "\<not> startsWith v ''0B''"
    using specUnsigned_prefix [OF u, of "CHR ''x''"] specUnsigned_prefix [OF u, of "CHR ''X''"]
      specUnsigned_prefix [OF u, of "CHR ''o''"] specUnsigned_prefix [OF u, of "CHR ''O''"]
      specUnsigned_prefix [OF u, of "CHR ''b''"] specUnsigned_prefix [OF u, of "CHR ''B''"]
    by (simp_all add: isDigit_def)
  have sign: "hd v \<noteq> CHR ''+''" "hd v \<noteq> CHR ''-''"
    using isDigit_chars [OF ends(2)] by simp_all
  have "StrUnsignedDecimalLiteral v \<noteq> NaN"
    using specUnsigned_literal [OF u] .
  then show ?thesis
    unfolding Number_def Let_def trim using pre sign ends(1) by simp
qed

lemma quoted_code_spec:
  assumes "raw \<noteq> [c]"
  shows "(startsWith raw [c] \<and> endsWith raw [c]) = quotedBy [c] raw"
proof (cases raw)
  case Nil
  then show ?thesis by (simp add: quotedBy_def startsWith_def endsWith_def)
next
  case (Cons a t)
  then show ?thesis
    using assms by (cases t) (auto simp: quotedBy_def startsWith_def endsWith_def)
qed

lemma parseValue_coerce:
  assumes "raw \<noteq> dq" and "raw \<noteq> sq" and "isNaN (Number raw) \<or> specNumeric raw"
  shows "parseValue raw = coerce raw"
proof -
  have num: "specNumeric raw \<longleftrightarrow> \<not> isNaN (Number raw)"
    using assms(3) specNumeric_Number [of raw] by (auto simp: isNaN_def)
  show ?thesis
    unfolding parseValue_def coerce_def quoted_code_spec [OF assms(1)] quoted_code_spec [OF assms(2)] num
    by simp
qed

lemma parseValue_quoted:
  "parseValue (dq @ s @ dq) = JString s" "parseValue (sq @ s @ sq) = JString s"
  by (simp_all add: parseValue_def startsWith_def endsWith_def slice_1_m1_def)

lemma Number_42: "Number ''42'' = Finite 42"
  using numberValue_small [of 42]
  by (simp add: Number_def trim_def isWhiteSpace_def startsWith_def StrUnsignedDecimalLiteral_def
      isDigit_def exponentPart_def digitsValue_def digitValue_def pow10_def)

lemma Number_0x10: "Number ''0x10'' = Finite 16"
  using numberValue_small [of 16]
  by (simp add: Number_def trim_def isWhiteSpace_def startsWith_def nonDecimalLiteral_def
      isRadixDigit_def digitsValue_def digitValue_def)

lemma specNumeric_examples: "specNumeric ''42''" "\<not> specNumeric ''0x10''"
  by code_simp+

text \<open>
  C4, as the code has it. \<open>parseValue\<close> is a function of the string alone and has no
  failing branch. It agrees with the five ordered rules of the specification on every
  string but two kinds. A lone quote character counts as quoted and yields the empty
  string. The numeric rule is \<open>Number(value)\<close> not being \<open>NaN\<close>: every integer or decimal
  literal with an optional leading \<open>-\<close> passes it, and so does whatever else \<open>Number\<close>
  accepts (hexadecimal, octal and binary literals, exponents, a leading \<open>+\<close>, \<open>Infinity\<close>,
  white space around the literal, the empty string); each such string yields that Number.
  A string in quotes yields what is between them, and the four examples hold.
\<close>

theorem parseValue_rules:
  "(raw \<noteq> dq \<and> raw \<noteq> sq \<and> (isNaN (Number raw) \<or> specNumeric raw) \<longrightarrow> parseValue raw = coerce raw)
   \<and> (\<not> (startsWith v dq \<and> endsWith v dq) \<and> \<not> (startsWith v sq \<and> endsWith v sq)
        \<and> v \<noteq> ''true'' \<and> v \<noteq> ''false'' \<and> v \<noteq> ''null'' \<and> \<not> isNaN (Number v) \<longrightarrow>
        parseValue v = JNumber (Number v))
   \<and> (specNumeric w \<longrightarrow> \<not> isNaN (Number w))
   \<and> parseValue (dq @ s @ dq) = JString s \<and> parseValue (sq @ s @ sq) = JString s
   \<and> parseValue dq = JString [] \<and> parseValue sq = JString []
   \<and> parseValue ''true'' = JBoolean True \<and> parseValue ''false'' = JBoolean False
   \<and> parseValue (sq @ ''John'' @ sq) = JString ''John''
   \<and> parseValue ''42'' = JNumber (Finite 42) \<and> parseValue ''null'' = JNull"
proof (intro conjI impI)
  assume "raw \<noteq> dq \<and> raw \<noteq> sq \<and> (isNaN (Number raw) \<or> specNumeric raw)"
  then show "parseValue raw = coerce raw"
    by (simp add: parseValue_coerce)
next
  assume "\<not> (startsWith v dq \<and> endsWith v dq) \<and> \<not> (startsWith v sq \<and> endsWith v sq)
        \<and> v \<noteq> ''true'' \<and> v \<noteq> ''false'' \<and> v \<noteq> ''null'' \<and> \<not> isNaN (Number v)"
  then show "parseValue v = JNumber (Number v)"
    by (simp add: parseValue_def)
next
  assume "specNumeric w"
  then show "\<not> isNaN (Number w)"
    using specNumeric_Number [of w] by (auto simp: isNaN_def)
next
  show "parseValue (dq @ s @ dq) = JString s" "parseValue (sq @ s @ sq) = JString s"
    by (rule parseValue_quoted)+
  show "parseValue dq = JString []" "parseValue sq = JString []"
    by (simp_all add: parseValue_def startsWith_def endsWith_def slice_1_m1_def)
  show "parseValue ''true'' = JBoolean True" "parseValue ''false'' = JBoolean False"
    "parseValue ''null'' = JNull"
    by (simp_all add: parseValue_def startsWith_def endsWith_def)
  show "parseValue (sq @ ''John'' @ sq) = JString ''John''"
    by (rule parseValue_quoted)
  show "parseValue ''42'' = JNumber (Finite 42)"
    by (simp add: parseValue_def startsWith_def endsWith_def Number_42 isNaN_def)
qed

theorem parseValue_rules_witness:
  "parseValue ''42'' = coerce ''42''
   \<and> parseValue ''0x10'' = JNumber (Number ''0x10'')
   \<and> \<not> isNaN (Number ''42'')"
  using parseValue_rules [of "''42''" "''0x10''" "''42''"]
  by (simp add: specNumeric_examples startsWith_def endsWith_def Number_0x10 isNaN_def)

text \<open>
  C4 as the specification states it fails: \<open>0x10\<close> is no integer or decimal literal, the
  rules of the specification keep it as the string \<open>0x10\<close>, and \<open>parseValue\<close> yields the
  number 16.
\<close>

theorem parseValue_numeric_counterexample:
  "parseValue ''0x10'' = JNumber (Finite 16) \<and> coerce ''0x10'' = JString ''0x10''"
  by (simp add: parseValue_def coerce_def quotedBy_def startsWith_def endsWith_def Number_0x10
      isNaN_def specNumeric_examples)

section \<open>The filter grammar\<close>

subsection \<open>Capture groups\<close>

lemma lazyPlus_Some:
  "lazyPlus k cap s = Some r \<Longrightarrow> \<exists>cap' rest. k cap' rest = Some r"
proof (induction s arbitrary: cap)
  case Nil
  then show ?case by simp
next
  case (Cons c cs)
  show ?case
  proof (cases "k (cap @ [c]) cs")
    case None
    with Cons.prems have "lazyPlus k (cap @ [c]) cs = Some r"
      by (simp split: if_splits)
    then show ?thesis by (rule Cons.IH)
  next
    case (Some r')
    with Cons.prems have "r' = r"
      by (simp split: if_splits)
    with Some show ?thesis by blast
  qed
qed

lemma greedyPlus_Some:
  "greedyPlus k cap s = Some r \<Longrightarrow> \<exists>cap' rest. k cap' rest = Some r"
proof (induction s arbitrary: cap)
  case Nil
  then show ?case by simp
next
  case (Cons c cs)
  show ?case
  proof (cases "greedyPlus k (cap @ [c]) cs")
    case None
    with Cons.prems have "k (cap @ [c]) cs = Some r"
      by (simp split: if_splits)
    then show ?thesis by blast
  next
    case (Some r')
    with Cons.prems have "r' = r"
      by (simp split: if_splits)
    with Some show ?thesis using Cons.IH by blast
  qed
qed

lemma matchHere_groups:
  "matchHere ic as s = Some groups \<Longrightarrow> length groups = length (filter isGroup as)"
proof (induction as arbitrary: s groups)
  case Nil
  then show ?case by simp
next
  case (Cons a as)
  show ?case
  proof (cases a)
    case (Lit l)
    with Cons.prems have "matchHere ic as (drop (length l) s) = Some groups"
      by (simp split: if_splits)
    from Cons.IH [OF this] Lit show ?thesis by simp
  next
    case LazyGroup
    with Cons.prems have
      "lazyPlus (\<lambda>cap rest. map_option ((#) cap) (matchHere ic as rest)) [] s = Some groups"
      by simp
    from lazyPlus_Some [OF this] obtain cap rest where
      "map_option ((#) cap) (matchHere ic as rest) = Some groups"
      by blast
    then obtain gs where "matchHere ic as rest = Some gs" "groups = cap # gs"
      by (cases "matchHere ic as rest") auto
    with Cons.IH [of rest gs] LazyGroup show ?thesis by simp
  next
    case GreedyGroup
    with Cons.prems have
      "greedyPlus (\<lambda>cap rest. map_option ((#) cap) (matchHere ic as rest)) [] s = Some groups"
      by simp
    from greedyPlus_Some [OF this] obtain cap rest where
      "map_option ((#) cap) (matchHere ic as rest) = Some groups"
      by blast
    then obtain gs where "matchHere ic as rest = Some gs" "groups = cap # gs"
      by (cases "matchHere ic as rest") auto
    with Cons.IH [of rest gs] GreedyGroup show ?thesis by simp
  qed
qed

lemma matchFrom_groups:
  "matchFrom re s = Some groups \<Longrightarrow> length groups = length (filter isGroup (atoms re))"
proof (induction s)
  case Nil
  then show ?case by (simp add: matchHere_groups)
next
  case (Cons c cs)
  show ?case
  proof (cases "matchHere (ignoreCase re) (atoms re) (c # cs)")
    case None
    with Cons show ?thesis by simp
  next
    case (Some gs)
    with Cons.prems have "gs = groups" by simp
    with Some show ?thesis by (simp add: matchHere_groups)
  qed
qed

lemma str_match_groups:
  "str_match s re = Some groups \<Longrightarrow> length groups = length (filter isGroup (atoms re))"
  unfolding str_match_def by (rule matchFrom_groups)

lemma firstMatch_Some:
  "firstMatch res s = Some (k, groups) \<Longrightarrow> k < length res \<and> str_match s (res ! k) = Some groups"
proof (induction res arbitrary: k)
  case Nil
  then show ?case by simp
next
  case (Cons re res)
  show ?case
  proof (cases "str_match s re")
    case None
    with Cons.prems obtain k' where "firstMatch res s = Some (k', groups)" "k = Suc k'"
      by (cases "firstMatch res s") auto
    with Cons.IH [of k'] show ?thesis by simp
  next
    case (Some gs)
    with Cons.prems show ?thesis by simp
  qed
qed

subsection \<open>The strategies, one by one\<close>

lemma parseAndApplyFilter_for_firstMatch:
  "parseAndApplyFilter_for sts clause this =
     (case firstMatch (map pattern sts) clause of
        None \<Rightarrow> Inr this
      | Some (k, groups) \<Rightarrow>
          (case groups of
             [] \<Rightarrow> Inl TypeError
           | g1 # gs \<Rightarrow>
               if allowedFiltersList this \<noteq> [] \<and> trim g1 \<notin> set (allowedFiltersList this)
               then Inr this
               else handle (sts ! k) (trim g1)
                      (case gs of [] \<Rightarrow> None | g2 # _ \<Rightarrow> Some (trim g2)) this))"
proof (induction sts)
  case Nil
  show ?case by simp
next
  case (Cons st sts)
  show ?case
  proof (cases "str_match clause (pattern st)")
    case None
    show ?thesis
    proof (cases "firstMatch (map pattern sts) clause")
      case None
      with \<open>str_match clause (pattern st) = None\<close> Cons show ?thesis by simp
    next
      case (Some kg)
      with \<open>str_match clause (pattern st) = None\<close> Cons show ?thesis
        by (cases kg) (simp add: Let_def split: list.splits)
    qed
  next
    case (Some groups)
    then show ?thesis by (simp add: Let_def split: list.splits)
  qed
qed

lemma patterns_index: "map pattern (strategies index) = map pattern (strategies 0)"
  by (simp add: strategies_def)

lemma length_strategies: "length (strategies index) = 11"
  by (simp add: strategies_def)

lemma less_11_cases:
  "k < 11 \<Longrightarrow> k = 0 \<or> k = 1 \<or> k = 2 \<or> k = 3 \<or> k = 4 \<or> k = 5 \<or> k = 6 \<or> k = 7 \<or> k = 8 \<or> k = 9 \<or> k = (10::nat)"
  by arith

lemma strategy_groups:
  assumes "k < 11"
  shows "length (filter isGroup (atoms (pattern (strategies 0 ! k)))) = (if k < 2 then 1 else 2)"
  using less_11_cases [OF assms] by (auto simp: strategies_def)

lemma str_includes_char: "str_includes s [c] = (c \<in> set s)"
proof
  assume "str_includes s [c]"
  then obtain i where "take 1 (drop i s) = [c]"
    by (auto simp: str_includes_def startsWith_def)
  then have "c \<in> set (take 1 (drop i s))"
    by simp
  then show "c \<in> set s"
    by (meson in_set_dropD in_set_takeD)
next
  assume "c \<in> set s"
  then obtain i where i: "i < length s" "s ! i = c"
    by (auto simp: in_set_conv_nth)
  then have "drop i s = c # drop (Suc i) s"
    by (simp add: Cons_nth_drop_Suc [symmetric])
  then have "startsWith (drop i s) [c]"
    by (simp add: startsWith_def)
  with i(1) show "str_includes s [c]"
    unfolding str_includes_def by (intro bexI [of _ i]) simp_all
qed

lemma startsWith_entity: "startsWith s ''entity.'' \<Longrightarrow> CHR ''.'' \<in> set s"
proof -
  assume "startsWith s ''entity.''"
  then have "take (length ''entity.'') s = ''entity.''"
    unfolding startsWith_def .
  then have "set ''entity.'' \<subseteq> set s"
    by (metis set_take_subset)
  then show ?thesis
    by auto
qed

lemma addWhere_qualify:
  assumes "CHR ''.'' \<notin> set rest"
  shows "addWhere (field @ rest) parameters this = andWhere (qualify field @ rest) parameters this"
proof (cases "CHR ''.'' \<in> set field")
  case True
  then show ?thesis
    by (simp add: addWhere_def qualify_def str_includes_char)
next
  case False
  with assms have "CHR ''.'' \<notin> set (field @ rest)"
    by simp
  then have "\<not> startsWith (field @ rest) ''entity.''" "\<not> str_includes (field @ rest) ''.''"
    using startsWith_entity [of "field @ rest"] by (auto simp: str_includes_char)
  with False show ?thesis
    by (simp add: addWhere_def qualify_def)
qed

lemma natToString_no_dot: "CHR ''.'' \<notin> set (natToString n)"
proof
  assume "CHR ''.'' \<in> set (natToString n)"
  then have "isDigit CHR ''.''"
    using natToString_digits [of n] by (simp add: list_all_iff)
  then show False
    by (simp add: isDigit_def)
qed

lemma rest_no_dot:
  "CHR ''.'' \<notin> set (operatorText kind @ (if carriesValue kind then '':'' @ placeholder index else []))"
  by (cases kind) (simp_all add: placeholder_def natToString_no_dot)

lemma handle_strategy:
  assumes "k < 11"
  shows "handle (strategies index ! k) field value this =
     (if k < 2 then Inr (addWhere (field @ operatorText (grammarKinds ! k)) [] this)
      else (case value of
              None \<Rightarrow> Inl TypeError
            | Some raw \<Rightarrow>
                Inr (addWhere (field @ operatorText (grammarKinds ! k) @ '':'' @ placeholder index)
                       [(placeholder index, boundValue (grammarKinds ! k) (parseValue raw))] this)))"
  using less_11_cases [OF assms]
  by (elim disjE)
     (simp_all add: strategies_def grammarKinds_def placeholder_def parseValue_arg_def
        split: option.splits)

lemma kind_carriesValue:
  assumes "k < 11"
  shows "carriesValue (grammarKinds ! k) = (2 \<le> k)"
  using less_11_cases [OF assms]
  by (elim disjE) (simp_all add: grammarKinds_def carriesValue_def)

lemma firstMatch_shape:
  assumes "firstMatch (map pattern (strategies 0)) clause = Some (k, groups)"
  shows "k < 11 \<and> (if k < 2 then \<exists>g1. groups = [g1] else \<exists>g1 g2. groups = [g1, g2])"
proof -
  from firstMatch_Some [OF assms]
  have k: "k < 11" and m: "str_match clause (pattern (strategies 0 ! k)) = Some groups"
    by (auto simp: length_strategies)
  have "length groups = (if k < 2 then 1 else 2)"
    using str_match_groups [OF m] strategy_groups [OF k] by simp
  then have "if k < 2 then \<exists>g1. groups = [g1] else \<exists>g1 g2. groups = [g1, g2]"
    by (cases groups; cases "tl groups") (auto split: if_splits)
  with k show ?thesis by simp
qed

lemma parseAndApplyFilter_translate:
  "parseAndApplyFilter clause index this =
     Inr (case translate (allowedFiltersList this) clause index of
            None \<Rightarrow> this
          | Some (template, bindings) \<Rightarrow> andWhere template bindings this)"
proof (cases "firstMatch (map pattern (strategies 0)) clause")
  case None
  then show ?thesis
    by (simp add: parseAndApplyFilter_def parseAndApplyFilter_for_firstMatch patterns_index [of index]
        translate_def clauseOf_def)
next
  case (Some kg)
  obtain k groups where kg: "kg = (k, groups)"
    by (cases kg)
  from firstMatch_shape [OF Some [unfolded kg]]
  have k: "k < 11" and shape: "if k < 2 then \<exists>g1. groups = [g1] else \<exists>g1 g2. groups = [g1, g2]"
    by simp_all
  show ?thesis
  proof (cases "k < 2")
    case True
    with shape obtain g1 where groups: "groups = [g1]"
      by auto
    have cv: "\<not> carriesValue (grammarKinds ! k)"
      using kind_carriesValue [OF k] True by simp
    show ?thesis
      using True cv addWhere_qualify [OF rest_no_dot [of "grammarKinds ! k" index], of "trim g1" "[]" this]
      by (simp add: parseAndApplyFilter_def parseAndApplyFilter_for_firstMatch patterns_index [of index]
          Some kg groups handle_strategy [OF k] translate_def clauseOf_def isAllowed_def
          templateOf_def bindingsOf_def)
  next
    case False
    with shape obtain g1 g2 where groups: "groups = [g1, g2]"
      by auto
    have cv: "carriesValue (grammarKinds ! k)"
      using kind_carriesValue [OF k] False by simp
    show ?thesis
      using False cv
        addWhere_qualify [OF rest_no_dot [of "grammarKinds ! k" index], of "trim g1"
          "[(placeholder index, boundValue (grammarKinds ! k) (parseValue (trim g2)))]" this]
      by (simp add: parseAndApplyFilter_def parseAndApplyFilter_for_firstMatch patterns_index [of index]
          Some kg groups handle_strategy [OF k] translate_def clauseOf_def isAllowed_def
          templateOf_def bindingsOf_def)
  qed
qed

subsection \<open>Where a lazy group stops\<close>
















subsection \<open>Sample clauses\<close>


lemma patterns:
  "map pattern (strategies 0) =
    [Regex [LazyGroup, Lit ('' eq 'null'' @ sq)] True,
     Regex [LazyGroup, Lit ('' ne 'null'' @ sq)] True,
     Regex [LazyGroup, Lit '' eq '', GreedyGroup] False,
     Regex [LazyGroup, Lit '' ne '', GreedyGroup] False,
     Regex [LazyGroup, Lit '' gt '', GreedyGroup] False,
     Regex [LazyGroup, Lit '' ge '', GreedyGroup] False,
     Regex [LazyGroup, Lit '' lt '', GreedyGroup] False,
     Regex [LazyGroup, Lit '' le '', GreedyGroup] False,
     Regex [Lit ''contains('', LazyGroup, Lit '','', LazyGroup, Lit '')''] False,
     Regex [Lit ''startswith('', LazyGroup, Lit '','', LazyGroup, Lit '')''] False,
     Regex [Lit ''endswith('', LazyGroup, Lit '','', LazyGroup, Lit '')''] False]"
  by (simp add: strategies_def)




lemma clause_name_eq_John:
  "clauseOf (''name eq 'John'' @ sq) = Some (Eq, ''name'', Some (sq @ ''John'' @ sq))"
proof -
  let ?c = "''name eq 'John'' @ sq"
  have m: "str_match ?c (Regex [LazyGroup, Lit ('' eq 'null'' @ sq)] True) = None"
    "str_match ?c (Regex [LazyGroup, Lit ('' ne 'null'' @ sq)] True) = None"
    "str_match ?c (Regex [LazyGroup, Lit '' eq '', GreedyGroup] False) = Some [''name'', sq @ ''John'' @ sq]"
    by (simp_all add: str_match_def litAt_def isLineTerminator_def upperChar_def)
  have t: "trim ''name'' = ''name''" "trim (sq @ ''John'' @ sq) = sq @ ''John'' @ sq"
    by (simp_all add: trim_def isWhiteSpace_def)
  show ?thesis
    unfolding clauseOf_def patterns using m t by (simp add: grammarKinds_def)
qed

lemma clause_ab_gt_5:
  "clauseOf ''a.b gt 5'' = Some (Gt, ''a.b'', Some ''5'')"
proof -
  let ?c = "''a.b gt 5''"
  have m: "str_match ?c (Regex [LazyGroup, Lit ('' eq 'null'' @ sq)] True) = None"
    "str_match ?c (Regex [LazyGroup, Lit ('' ne 'null'' @ sq)] True) = None"
    "str_match ?c (Regex [LazyGroup, Lit '' eq '', GreedyGroup] False) = None"
    "str_match ?c (Regex [LazyGroup, Lit '' ne '', GreedyGroup] False) = None"
    "str_match ?c (Regex [LazyGroup, Lit '' gt '', GreedyGroup] False) = Some [''a.b'', ''5'']"
    by (simp_all add: str_match_def litAt_def isLineTerminator_def upperChar_def)
  have t: "trim ''a.b'' = ''a.b''" "trim ''5'' = ''5''"
    by (simp_all add: trim_def isWhiteSpace_def)
  show ?thesis
    unfolding clauseOf_def patterns using m t by (simp add: grammarKinds_def)
qed

section \<open>Filters\<close>

subsection \<open>Comparisons with null\<close>






subsection \<open>Values and placeholders\<close>




subsection \<open>Field qualification\<close>

text \<open>
  C9. For every clause that matches a grammar, whatever its operator kind, and whose
  field the allow-list passes, the condition handed to the query builder starts with
  \<open>entity.<field>\<close> when the field has no \<open>.\<close> in it and with the field unchanged when it
  has one; the operator and the placeholder follow.
\<close>

theorem filter_field_qualification:
  assumes "clauseOf clause = Some (kind, field, rawValue)"
    and "isAllowed field (allowedFiltersList this)"
  shows "parseAndApplyFilter clause index this =
     Inr (andWhere
            ((if CHR ''.'' \<in> set field then field else ''entity.'' @ field)
             @ operatorText kind @ (if carriesValue kind then '':val'' @ natToString index else []))
            (bindingsOf kind rawValue index) this)"
  unfolding parseAndApplyFilter_translate translate_def assms(1)
  using assms(2) by (simp add: templateOf_def qualify_def placeholder_def)

lemma parseValue_5: "parseValue ''5'' = JNumber (Finite 5)"
  using numberValue_small [of 5]
  by (simp add: parseValue_def startsWith_def endsWith_def isNaN_def Number_def trim_def
      isWhiteSpace_def StrUnsignedDecimalLiteral_def isDigit_def exponentPart_def digitsValue_def
      digitValue_def pow10_def)

theorem filter_field_qualification_witness:
  "parseAndApplyFilter ''a.b gt 5'' 0
     (ODataBuilder_for \<lparr>q_filter = None, q_orderby = None, q_expand = None, q_top = None, q_skip = None\<rparr>) =
   Inr (andWhere ''a.b > :val0'' [(''val0'', JNumber (Finite 5))]
     (ODataBuilder_for \<lparr>q_filter = None, q_orderby = None, q_expand = None, q_top = None, q_skip = None\<rparr>))
   \<and> parseAndApplyFilter (''name eq 'John'' @ sq) 0
     (ODataBuilder_for \<lparr>q_filter = None, q_orderby = None, q_expand = None, q_top = None, q_skip = None\<rparr>) =
   Inr (andWhere ''entity.name = :val0'' [(''val0'', JString ''John'')]
     (ODataBuilder_for \<lparr>q_filter = None, q_orderby = None, q_expand = None, q_top = None, q_skip = None\<rparr>))"
  using filter_field_qualification [OF clause_ab_gt_5, of
     "ODataBuilder_for \<lparr>q_filter = None, q_orderby = None, q_expand = None, q_top = None, q_skip = None\<rparr>" 0]
    filter_field_qualification [OF clause_name_eq_John, of
     "ODataBuilder_for \<lparr>q_filter = None, q_orderby = None, q_expand = None, q_top = None, q_skip = None\<rparr>" 0]
  unfolding carriesValue_def isAllowed_def bindingsOf_def placeholder_def
  by (simp add: ODataBuilder_for_def natToString_0 parseValue_quoted(2) [of "''John''", simplified]
      parseValue_5)

subsection \<open>The clauses of a whole filter\<close>

lemma applyFilters_forEach_predicates:
  "applyFilters_forEach parts index this =
     Inr (this\<lparr>queryBuilder := (queryBuilder this)
       \<lparr>andWhere_calls := andWhere_calls (queryBuilder this)
          @ predicatesOf (allowedFiltersList this) parts index\<rparr>\<rparr>)"
proof (induction parts arbitrary: index this)
  case Nil
  show ?case by simp
next
  case (Cons part parts)
  show ?case
  proof (cases "translate (allowedFiltersList this) (trim part) index")
    case None
    then show ?thesis
      by (simp add: parseAndApplyFilter_translate Cons.IH)
  next
    case (Some p)
    obtain template bindings where p: "p = (template, bindings)"
      by (cases p)
    show ?thesis
      by (simp add: parseAndApplyFilter_translate Cons.IH Some p andWhere_def)
  qed
qed

lemma predicatesOf_positions:
  "predicatesOf allowList parts k =
     concat (map (\<lambda>i. case translate allowList (trim (parts ! i)) (k + i) of None \<Rightarrow> [] | Some p \<Rightarrow> [p])
                 [0 ..< length parts])"
proof (induction parts arbitrary: k)
  case Nil
  show ?case by simp
next
  case (Cons part parts)
  have "[0 ..< length (part # parts)] = 0 # map Suc [0 ..< length parts]"
    by (simp add: upt_conv_Cons map_Suc_upt del: upt_Suc)
  then show ?case
    by (simp add: Cons.IH comp_def del: upt_Suc)
qed

lemma translate_bindings:
  assumes "translate allowList clause index = Some (template, bindings)"
  shows "bindings = [] \<or> (\<exists>v. bindings = [(placeholder index, v)])"
  using assms
  by (auto simp: translate_def bindingsOf_def split: option.splits if_splits)

lemma placeholder_inj: "placeholder i = placeholder j \<Longrightarrow> i = j"
  by (simp add: placeholder_def natToString_inj)

lemma keys_step:
  assumes "A = [] \<or> A = [f k]" and "set B \<subseteq> f ` {Suc k ..}" and "distinct B" and "f k \<notin> set B"
  shows "set (A @ B) \<subseteq> f ` {k ..} \<and> distinct (A @ B)"
proof -
  have "f ` {Suc k ..} \<subseteq> f ` {k ..}"
    by auto
  with assms(2) have "set B \<subseteq> f ` {k ..}"
    by (rule subset_trans)
  with assms(1,3,4) show ?thesis
    by auto
qed

lemma predicatesOf_keys:
  "set (concat (map (\<lambda>(template, bindings). map fst bindings) (predicatesOf allowList parts k)))
     \<subseteq> placeholder ` {k ..}
   \<and> distinct (concat (map (\<lambda>(template, bindings). map fst bindings) (predicatesOf allowList parts k)))"
proof (induction parts arbitrary: k)
  case Nil
  show ?case by simp
next
  case (Cons part parts)
  let ?keys = "\<lambda>ps. concat (map (\<lambda>(template, bindings). map fst bindings) ps)"
  let ?here = "case translate allowList (trim part) k of None \<Rightarrow> [] | Some p \<Rightarrow> [p]"
  have here: "?keys ?here = [] \<or> ?keys ?here = [placeholder k]"
    using translate_bindings [of allowList "trim part" k]
    by (cases "translate allowList (trim part) k") auto
  have rest: "set (?keys (predicatesOf allowList parts (Suc k))) \<subseteq> placeholder ` {Suc k ..}"
    and dist: "distinct (?keys (predicatesOf allowList parts (Suc k)))"
    using Cons.IH [of "Suc k"] by simp_all
  have notin: "placeholder k \<notin> set (?keys (predicatesOf allowList parts (Suc k)))"
  proof
    assume "placeholder k \<in> set (?keys (predicatesOf allowList parts (Suc k)))"
    with rest have "placeholder k \<in> placeholder ` {Suc k ..}"
      by (rule subsetD)
    then obtain i where "Suc k \<le> i" "placeholder k = placeholder i"
      by (auto simp: image_iff)
    then show False
      using placeholder_inj [of k i] by simp
  qed
  have split: "?keys (predicatesOf allowList (part # parts) k) =
      ?keys ?here @ ?keys (predicatesOf allowList parts (Suc k))"
    by simp
  show ?case
    unfolding split by (rule keys_step [OF here rest dist notin])
qed

lemma clause_a_eq_1: "clauseOf ''a eq 1'' = Some (Eq, ''a'', Some ''1'')"
proof -
  let ?c = "''a eq 1''"
  have m: "str_match ?c (Regex [LazyGroup, Lit ('' eq 'null'' @ sq)] True) = None"
    "str_match ?c (Regex [LazyGroup, Lit ('' ne 'null'' @ sq)] True) = None"
    "str_match ?c (Regex [LazyGroup, Lit '' eq '', GreedyGroup] False) = Some [''a'', ''1'']"
    by (simp_all add: str_match_def litAt_def isLineTerminator_def upperChar_def)
  have t: "trim ''a'' = ''a''" "trim ''1'' = ''1''"
    by (simp_all add: trim_def isWhiteSpace_def)
  show ?thesis
    unfolding clauseOf_def patterns using m t by (simp add: grammarKinds_def)
qed

lemma clause_b_eq_2: "clauseOf ''b eq 2'' = Some (Eq, ''b'', Some ''2'')"
proof -
  let ?c = "''b eq 2''"
  have m: "str_match ?c (Regex [LazyGroup, Lit ('' eq 'null'' @ sq)] True) = None"
    "str_match ?c (Regex [LazyGroup, Lit ('' ne 'null'' @ sq)] True) = None"
    "str_match ?c (Regex [LazyGroup, Lit '' eq '', GreedyGroup] False) = Some [''b'', ''2'']"
    by (simp_all add: str_match_def litAt_def isLineTerminator_def upperChar_def)
  have t: "trim ''b'' = ''b''" "trim ''2'' = ''2''"
    by (simp_all add: trim_def isWhiteSpace_def)
  show ?thesis
    unfolding clauseOf_def patterns using m t by (simp add: grammarKinds_def)
qed

lemma sample_values:
  "parseValue ''1'' = JNumber (Finite 1)" "parseValue ''2'' = JNumber (Finite 2)"
  using numberValue_small [of 1] numberValue_small [of 2]
  by (simp_all add: parseValue_def startsWith_def endsWith_def isNaN_def Number_def trim_def
      isWhiteSpace_def StrUnsignedDecimalLiteral_def isDigit_def exponentPart_def digitsValue_def
      digitValue_def pow10_def)

lemma sample_filter:
  "split ''a eq 1 and b eq 2'' '' and '' = [''a eq 1'', ''b eq 2'']"
  "trim ''a eq 1'' = ''a eq 1''" "trim ''b eq 2'' = ''b eq 2''"
  "natToString (Suc 0) = ''1''"
  by code_simp+

text \<open>
  C5. A non-empty \<open>$filter\<close> is split on \<open>and\<close> into its parts, and \<open>applyFilters\<close> hands the
  query builder, in order, the predicate of each part at the index the part has in the
  split. A part whose clause carries a value and is accepted binds that value under
  \<open>val<i>\<close>, \<open>i\<close> being this index whatever the operators of the other parts are, and uses
  \<open>:val<i>\<close> in its condition. The parameter names of the whole filter are pairwise
  distinct.
\<close>

theorem applyFilters_placeholders:
  assumes "q_filter (request this) = Some f" and "f \<noteq> []"
  shows "applyFilters this =
     Inr (this\<lparr>queryBuilder := (queryBuilder this)
       \<lparr>andWhere_calls := andWhere_calls (queryBuilder this) @
          concat (map (\<lambda>i. case translate (allowedFiltersList this) (trim (split f '' and '' ! i)) i of
                              None \<Rightarrow> [] | Some p \<Rightarrow> [p])
                      [0 ..< length (split f '' and '')])\<rparr>\<rparr>)
   \<and> (\<forall>i kind field raw.
         i < length (split f '' and '')
         \<and> clauseOf (trim (split f '' and '' ! i)) = Some (kind, field, Some raw) \<and> carriesValue kind
         \<and> isAllowed field (allowedFiltersList this) \<longrightarrow>
         translate (allowedFiltersList this) (trim (split f '' and '' ! i)) i =
           Some (qualify field @ operatorText kind @ '':val'' @ natToString i,
                 [(''val'' @ natToString i, boundValue kind (parseValue raw))]))
   \<and> distinct (concat (map (\<lambda>(template, bindings). map fst bindings)
        (concat (map (\<lambda>i. case translate (allowedFiltersList this) (trim (split f '' and '' ! i)) i of
                              None \<Rightarrow> [] | Some p \<Rightarrow> [p])
                      [0 ..< length (split f '' and '')]))))"
proof (intro conjI allI impI)
  show "applyFilters this =
     Inr (this\<lparr>queryBuilder := (queryBuilder this)
       \<lparr>andWhere_calls := andWhere_calls (queryBuilder this) @
          concat (map (\<lambda>i. case translate (allowedFiltersList this) (trim (split f '' and '' ! i)) i of
                              None \<Rightarrow> [] | Some p \<Rightarrow> [p])
                      [0 ..< length (split f '' and '')])\<rparr>\<rparr>)"
    using assms predicatesOf_positions [of "allowedFiltersList this" "split f '' and ''" 0]
    by (simp add: applyFilters_def applyFilters_forEach_predicates)
next
  fix i kind field raw
  assume "i < length (split f '' and '')
         \<and> clauseOf (trim (split f '' and '' ! i)) = Some (kind, field, Some raw) \<and> carriesValue kind
         \<and> isAllowed field (allowedFiltersList this)"
  then show "translate (allowedFiltersList this) (trim (split f '' and '' ! i)) i =
           Some (qualify field @ operatorText kind @ '':val'' @ natToString i,
                 [(''val'' @ natToString i, boundValue kind (parseValue raw))])"
    by (simp add: translate_def templateOf_def bindingsOf_def placeholder_def)
next
  show "distinct (concat (map (\<lambda>(template, bindings). map fst bindings)
        (concat (map (\<lambda>i. case translate (allowedFiltersList this) (trim (split f '' and '' ! i)) i of
                              None \<Rightarrow> [] | Some p \<Rightarrow> [p])
                      [0 ..< length (split f '' and '')]))))"
    using predicatesOf_keys [of "allowedFiltersList this" "split f '' and ''" 0]
      predicatesOf_positions [of "allowedFiltersList this" "split f '' and ''" 0]
    by simp
qed

theorem applyFilters_placeholders_witness:
  "applyFilters (ODataBuilder_for \<lparr>q_filter = Some ''a eq 1 and b eq 2'', q_orderby = None,
       q_expand = None, q_top = None, q_skip = None\<rparr>) =
   Inr ((ODataBuilder_for \<lparr>q_filter = Some ''a eq 1 and b eq 2'', q_orderby = None,
       q_expand = None, q_top = None, q_skip = None\<rparr>)
     \<lparr>queryBuilder := createQueryBuilder
        \<lparr>andWhere_calls := [(''entity.a = :val0'', [(''val0'', JNumber (Finite 1))]),
                             (''entity.b = :val1'', [(''val1'', JNumber (Finite 2))])]\<rparr>\<rparr>)
   \<and> distinct [''val0'', ''val1'']"
proof -
  let ?b = "ODataBuilder_for \<lparr>q_filter = Some ''a eq 1 and b eq 2'', q_orderby = None,
       q_expand = None, q_top = None, q_skip = None\<rparr>"
  have t: "translate [] ''a eq 1'' 0 = Some (''entity.a = :val0'', [(''val0'', JNumber (Finite 1))])"
    "translate [] ''b eq 2'' (Suc 0) = Some (''entity.b = :val1'', [(''val1'', JNumber (Finite 2))])"
    unfolding translate_def clause_a_eq_1 clause_b_eq_2
    by (simp_all add: isAllowed_def templateOf_def bindingsOf_def carriesValue_def qualify_def
        placeholder_def natToString_0 sample_filter sample_values)
  have "q_filter (request ?b) = Some ''a eq 1 and b eq 2''"
    by (simp add: ODataBuilder_for_def)
  from applyFilters_placeholders [OF this] show ?thesis
    by (simp add: sample_filter t ODataBuilder_for_def createQueryBuilder_def)
qed

section \<open>The response envelope\<close>

lemma applySort_request:
  "applySort e this = Inr this' \<Longrightarrow> request this' = request this"
  by (auto simp: applySort_def addOrderBy_def split: list.splits if_splits)

lemma applySorts_forEach_request:
  "applySorts_forEach es this = Inr this' \<Longrightarrow> request this' = request this"
proof (induction es arbitrary: this)
  case Nil
  then show ?case by simp
next
  case (Cons e es)
  from Cons.prems obtain this1 where "applySort e this = Inr this1"
    and "applySorts_forEach es this1 = Inr this'"
    by (auto split: sum.splits)
  then show ?case
    using Cons.IH [of this1] applySort_request [of e this this1] by simp
qed

lemma applySorts_request:
  "applySorts this = Inr this' \<Longrightarrow> request this' = request this"
  by (auto simp: applySorts_def applySorts_forEach_request split: option.splits if_splits)

lemma applyFilters_request:
  "applyFilters this = Inr this' \<Longrightarrow> request this' = request this"
  by (auto simp: applyFilters_def applyFilters_forEach_predicates split: option.splits if_splits)

lemma applyExpands_foldl_request:
  "request (foldl (\<lambda>this' e. applyExpand e this') this es) = request this"
  by (induction es arbitrary: this) (simp_all add: applyExpand_def leftJoinAndSelect_def Let_def)

lemma applyExpands_request: "request (applyExpands this) = request this"
  by (simp add: applyExpands_def applyExpands_foldl_request split: option.splits)

lemma applyPagination_request: "request (applyPagination this) = request this"
  by (simp add: applyPagination_def take_qb_def skip_qb_def Let_def split: option.splits)

lemma execute_envelope:
  assumes "execute (\<lambda>qb. (rows, count)) this = Inr response"
  shows "response =
     envelope (case q_skip (request this) of None \<Rightarrow> Finite 0 | Some s \<Rightarrow> if s = [] then Finite 0 else parseInt s)
              (case q_top (request this) of None \<Rightarrow> Finite 0 | Some t \<Rightarrow> if t = [] then Finite 0 else parseInt t)
              rows count"
proof -
  from assms obtain this1 this2 where f: "applyFilters this = Inr this1"
    and s: "applySorts this1 = Inr this2"
    and r: "response =
      envelope (case q_skip (request (applyPagination (applyExpands this2))) of
                  None \<Rightarrow> Finite 0 | Some s \<Rightarrow> if s = [] then Finite 0 else parseInt s)
               (case q_top (request (applyPagination (applyExpands this2))) of
                  None \<Rightarrow> Finite 0 | Some t \<Rightarrow> if t = [] then Finite 0 else parseInt t)
               rows count"
    by (auto simp: execute_def Let_def split: sum.splits)
  have "request (applyPagination (applyExpands this2)) = request this"
    using applyFilters_request [OF f] applySorts_request [OF s]
    by (simp add: applyPagination_request applyExpands_request)
  with r show ?thesis by simp
qed

text \<open>
  C6, as the code has it: the arithmetic is that of the specification for numbers below
  \<open>2^53\<close>. Whenever \<open>execute\<close> returns for a request whose \<open>$top\<close> and \<open>$skip\<close> parse as the
  naturals \<open>limit\<close> and \<open>skip\<close>, the storage layer having answered with \<open>rows\<close> and the total
  \<open>count\<close>, and \<open>limit\<close>, \<open>skip + rows.length\<close> and \<open>count\<close> are below \<open>2^53\<close>, the response is
  the envelope of the specification:
  \<open>per_page = (limit > 0 ? limit : total)\<close>,
  \<open>current_page = (limit > 0 ? floor(skip / limit) + 1 : 1)\<close>,
  \<open>last_page = (limit > 0 ? ceil(total / limit) : 1)\<close>, \<open>from = (total = 0 ? 0 : skip + 1)\<close> and
  \<open>to = (total = 0 ? 0 : skip + rows.length)\<close>. For all such naturals there is such a
  request: the one that has their decimal digits and nothing else, on which \<open>execute\<close> does
  return. In particular \<open>$top = 10\<close>, \<open>$skip = 10\<close>, five rows and a total of 15 give
  \<open>per_page 10\<close>, \<open>current_page 2\<close>, \<open>last_page 2\<close>, \<open>from 11\<close>, \<open>to 15\<close>.
\<close>

theorem execute_envelope_arithmetic:
  "(execute (\<lambda>qb. (rows, count)) this = Inr response
      \<and> q_top (request this) = Some t \<and> t \<noteq> [] \<and> parseInt t = Finite (of_nat limit)
      \<and> q_skip (request this) = Some s \<and> s \<noteq> [] \<and> parseInt s = Finite (of_nat skip)
      \<and> limit < 2 ^ 53 \<and> skip + length rows < 2 ^ 53 \<and> count < 2 ^ 53
      \<longrightarrow> response = build rows count skip limit)
   \<and> (limit < 2 ^ 53 \<and> skip + length rows < 2 ^ 53 \<and> count < 2 ^ 53
      \<longrightarrow> execute (\<lambda>qb. (rows, count))
            (ODataBuilder_for \<lparr>q_filter = None, q_orderby = None, q_expand = None,
                                q_top = Some (natToString limit), q_skip = Some (natToString skip)\<rparr>) =
          Inr (build rows count skip limit))
   \<and> execute (\<lambda>qb. ([r1, r2, r3, r4, r5], 15))
       (ODataBuilder_for \<lparr>q_filter = None, q_orderby = None, q_expand = None,
                           q_top = Some ''10'', q_skip = Some ''10''\<rparr>) =
     Inr \<lparr>data = [r1, r2, r3, r4, r5], current_page = Finite 2, from_row = Finite 11,
          last_page = Finite 2, per_page = Finite 10, to_row = Finite 15, total = Finite 15\<rparr>"
proof (intro conjI impI)
  assume a: "execute (\<lambda>qb. (rows, count)) this = Inr response
      \<and> q_top (request this) = Some t \<and> t \<noteq> [] \<and> parseInt t = Finite (of_nat limit)
      \<and> q_skip (request this) = Some s \<and> s \<noteq> [] \<and> parseInt s = Finite (of_nat skip)
      \<and> limit < 2 ^ 53 \<and> skip + length rows < 2 ^ 53 \<and> count < 2 ^ 53"
  then have "response = envelope (Finite (of_nat skip)) (Finite (of_nat limit)) rows count"
    using execute_envelope [of rows count this response] by simp
  then show "response = build rows count skip limit"
    using a by (simp only: envelope_build)
next
  assume b: "limit < 2 ^ 53 \<and> skip + length rows < 2 ^ 53 \<and> count < 2 ^ 53"
  then have "limit \<le> 2 ^ 53" "skip \<le> 2 ^ 53"
    by simp_all
  then have "execute (\<lambda>qb. (rows, count))
       (ODataBuilder_for \<lparr>q_filter = None, q_orderby = None, q_expand = None,
                           q_top = Some (natToString limit), q_skip = Some (natToString skip)\<rparr>) =
     Inr (envelope (Finite (of_nat skip)) (Finite (of_nat limit)) rows count)"
    by (simp add: execute_def ODataBuilder_for_def applyFilters_def applySorts_def applyExpands_def
        applyPagination_def take_qb_def skip_qb_def natToString_nonempty parseInt_natToString
        numberValue_of_nat)
  then show "execute (\<lambda>qb. (rows, count))
       (ODataBuilder_for \<lparr>q_filter = None, q_orderby = None, q_expand = None,
                           q_top = Some (natToString limit), q_skip = Some (natToString skip)\<rparr>) =
     Inr (build rows count skip limit)"
    using b by (simp only: envelope_build)
next
  have "execute (\<lambda>qb. ([r1, r2, r3, r4, r5], 15))
       (ODataBuilder_for \<lparr>q_filter = None, q_orderby = None, q_expand = None,
                           q_top = Some ''10'', q_skip = Some ''10''\<rparr>) =
       Inr (envelope (Finite (of_nat 10)) (Finite (of_nat 10)) [r1, r2, r3, r4, r5] 15)"
    by (simp add: execute_def ODataBuilder_for_def applyFilters_def applySorts_def applyExpands_def
        applyPagination_def take_qb_def skip_qb_def parseInt_10)
  then show "execute (\<lambda>qb. ([r1, r2, r3, r4, r5], 15))
       (ODataBuilder_for \<lparr>q_filter = None, q_orderby = None, q_expand = None,
                           q_top = Some ''10'', q_skip = Some ''10''\<rparr>) =
     Inr \<lparr>data = [r1, r2, r3, r4, r5], current_page = Finite 2, from_row = Finite 11,
          last_page = Finite 2, per_page = Finite 10, to_row = Finite 15, total = Finite 15\<rparr>"
    by (subst (asm) envelope_build) (simp_all add: build_def)
qed

lemma request_for: "request (ODataBuilder_for req) = req"
  by (simp add: ODataBuilder_for_def)

lemma parseInt_0: "parseInt ''0'' = Finite 0"
  by (simp add: parseInt_def trimStart_def isWhiteSpace_def startsWith_def isRadixDigit_def
      digitValue_def digitsValue_def numberValue_def)

lemma execute_first_page:
  "execute (\<lambda>qb. ([''a'', ''b'', ''c'', ''d'', ''e'', ''f'', ''g'', ''h'', ''i'', ''j''], 15))
     (ODataBuilder_for \<lparr>q_filter = None, q_orderby = None, q_expand = None,
                         q_top = Some ''10'', q_skip = Some ''0''\<rparr>) =
   Inr \<lparr>data = [''a'', ''b'', ''c'', ''d'', ''e'', ''f'', ''g'', ''h'', ''i'', ''j''],
        current_page = Finite 1, from_row = Finite 1, last_page = Finite 2,
        per_page = Finite 10, to_row = Finite 10, total = Finite 15\<rparr>"
proof -
  have "execute (\<lambda>qb. ([''a'', ''b'', ''c'', ''d'', ''e'', ''f'', ''g'', ''h'', ''i'', ''j''], 15))
     (ODataBuilder_for \<lparr>q_filter = None, q_orderby = None, q_expand = None,
                         q_top = Some ''10'', q_skip = Some ''0''\<rparr>) =
     Inr (envelope (Finite (of_nat 0)) (Finite (of_nat 10))
            [''a'', ''b'', ''c'', ''d'', ''e'', ''f'', ''g'', ''h'', ''i'', ''j''] 15)"
    by (simp add: execute_def ODataBuilder_for_def applyFilters_def applySorts_def applyExpands_def
        applyPagination_def take_qb_def skip_qb_def parseInt_10 parseInt_0)
  then show ?thesis
    by (subst (asm) envelope_build) (simp_all add: build_def)
qed

theorem execute_envelope_arithmetic_witness:
  "execute (\<lambda>qb. ([''a'', ''b'', ''c'', ''d'', ''e'', ''f'', ''g'', ''h'', ''i'', ''j''], 15))
     (ODataBuilder_for \<lparr>q_filter = None, q_orderby = None, q_expand = None,
                         q_top = Some ''10'', q_skip = Some ''0''\<rparr>) =
   Inr \<lparr>data = [''a'', ''b'', ''c'', ''d'', ''e'', ''f'', ''g'', ''h'', ''i'', ''j''],
        current_page = Finite 1, from_row = Finite 1, last_page = Finite 2,
        per_page = Finite 10, to_row = Finite 10, total = Finite 15\<rparr>
   \<and> \<lparr>data = [''a'', ''b'', ''c'', ''d'', ''e'', ''f'', ''g'', ''h'', ''i'', ''j''],
        current_page = Finite 1, from_row = Finite 1, last_page = Finite 2,
        per_page = Finite 10, to_row = Finite 10, total = Finite 15\<rparr> =
     build [''a'', ''b'', ''c'', ''d'', ''e'', ''f'', ''g'', ''h'', ''i'', ''j''] 15 0 10"
  using execute_envelope_arithmetic
    [of "[''a'', ''b'', ''c'', ''d'', ''e'', ''f'', ''g'', ''h'', ''i'', ''j'']" 15
        "ODataBuilder_for \<lparr>q_filter = None, q_orderby = None, q_expand = None,
                         q_top = Some ''10'', q_skip = Some ''0''\<rparr>"
        "\<lparr>data = [''a'', ''b'', ''c'', ''d'', ''e'', ''f'', ''g'', ''h'', ''i'', ''j''],
        current_page = Finite 1, from_row = Finite 1, last_page = Finite 2,
        per_page = Finite 10, to_row = Finite 10, total = Finite 15\<rparr>"
        "''10''" 10 "''0''" 0, THEN conjunct1]
  by (simp add: execute_first_page parseInt_10 parseInt_0 request_for)

text \<open>
  C6 as the specification states it, for every natural number, fails from \<open>2^53\<close> on:
  with \<open>$skip = 9007199254740992\<close> and one row, \<open>from\<close> and \<open>to\<close> are \<open>9007199254740992\<close>, not
  \<open>skip + 1\<close>.
\<close>

theorem envelope_beyond_2_53_counterexample:
  "map_sum id (\<lambda>response. (from_row response, to_row response))
     (execute (\<lambda>qb. ([''row''], 1))
        (ODataBuilder_for \<lparr>q_filter = None, q_orderby = None, q_expand = None,
                            q_top = Some ''10'', q_skip = Some ''9007199254740992''\<rparr>)) =
   Inr (Finite 9007199254740992, Finite 9007199254740992)
   \<and> from_row (build [''row''] 1 9007199254740992 10) = Finite 9007199254740993
   \<and> to_row (build [''row''] 1 9007199254740992 10) = Finite 9007199254740993"
  by (simp add: execute_def ODataBuilder_for_def applyFilters_def applySorts_def applyExpands_def
      applyPagination_def take_qb_def skip_qb_def parseInt_10 parseInt_2_53 envelope_def
      js_add_def numberValue_above_2_53 build_def Let_def)

end
